theory Spec2Isabelle
  imports Complex_Main "HOL-Library.Char_ord" "HOL-Library.List_Lexorder"
begin

section \<open>Errors\<close>

text \<open>
  A Go \<^verbatim>\<open>error\<close> is a value. The search package produces two kinds: errors that are
  only a message (\<^verbatim>\<open>fmt.Errorf\<close>, and the errors of the transport, of \<^verbatim>\<open>io.ReadAll\<close> and
  of \<^verbatim>\<open>encoding/json\<close>, which the package passes on untouched), and its own \<^verbatim>\<open>httpError\<close>
  struct. A \<^verbatim>\<open>*url.URL\<close> is modelled by the text it was parsed from.
\<close>

datatype URL = URL_of string

record httpErrorItem =
  Code :: string
  Field :: string
  Message :: string
  Resource :: string

record httpError =
  Errors :: "httpErrorItem list"
  Message :: string
  RequestURL :: URL
  StatusCode :: int

datatype error = errorString string | httpErr httpError

section \<open>Text helpers (strings, strconv, fmt)\<close>

definition dquote :: char where
  "dquote = CHR 0x22"

definition backslash :: char where
  "backslash = CHR 0x5C"

definition is_ascii :: "char \<Rightarrow> bool" where
  "is_ascii c = ((of_char c :: nat) < 128)"

definition ContainsAny :: "string \<Rightarrow> string \<Rightarrow> bool" where
  "ContainsAny s chars = list_ex (\<lambda>c. c \<in> set chars) s"

text \<open>\<open>strip_prefix w s\<close> is what follows \<open>w\<close> in \<open>s\<close>, when \<open>s\<close> starts with \<open>w\<close>.\<close>

fun strip_prefix :: "string \<Rightarrow> string \<Rightarrow> string option" where
  "strip_prefix [] s = Some s"
| "strip_prefix (c # w) [] = None"
| "strip_prefix (c # w) (d # s) = (if c = d then strip_prefix w s else None)"

fun strings_Contains :: "string \<Rightarrow> string \<Rightarrow> bool" where
  "strings_Contains [] sub = (sub = [])"
| "strings_Contains (c # s) sub = (strip_prefix sub (c # s) \<noteq> None \<or> strings_Contains s sub)"

text \<open>\<^verbatim>\<open>strings.SplitN(s, sep, 2)\<close> for a separator of one character.\<close>

definition SplitN_2 :: "string \<Rightarrow> char \<Rightarrow> string list" where
  "SplitN_2 s c =
     (if c \<in> set s then [takeWhile (\<lambda>x. x \<noteq> c) s, tl (dropWhile (\<lambda>x. x \<noteq> c) s)] else [s])"

definition hex_lower :: "nat \<Rightarrow> char" where
  "hex_lower n = ''0123456789abcdef'' ! (n mod 16)"

definition hex_upper :: "nat \<Rightarrow> char" where
  "hex_upper n = ''0123456789ABCDEF'' ! (n mod 16)"

text \<open>
  \<^verbatim>\<open>strconv.Quote\<close>, which the verb \<^verbatim>\<open>%q\<close> applies to a string: bytes below 128 are written
  one by one; what is written for a run of higher bytes is left to the parameter \<open>hi\<close>.
\<close>

definition quote_ascii :: "char \<Rightarrow> string" where
  "quote_ascii c =
     (let n = (of_char c :: nat) in
      if c = dquote \<or> c = backslash then [backslash, c]
      else if 32 \<le> n \<and> n < 127 then [c]
      else if n = 7 then [backslash, CHR ''a'']
      else if n = 8 then [backslash, CHR ''b'']
      else if n = 12 then [backslash, CHR ''f'']
      else if n = 10 then [backslash, CHR ''n'']
      else if n = 13 then [backslash, CHR ''r'']
      else if n = 9 then [backslash, CHR ''t'']
      else if n = 11 then [backslash, CHR ''v'']
      else [backslash, CHR ''x'', hex_lower (n div 16), hex_lower n])"

function quote_body :: "(string \<Rightarrow> string) \<Rightarrow> string \<Rightarrow> string" where
  "quote_body hi [] = []"
| "quote_body hi (c # cs) =
     (if is_ascii c then quote_ascii c @ quote_body hi cs
      else hi (c # takeWhile (\<lambda>x. \<not> is_ascii x) cs) @
           quote_body hi (dropWhile (\<lambda>x. \<not> is_ascii x) cs))"
  by pat_completeness auto
termination
  by (relation "measure (\<lambda>(hi, s). length s)") (auto simp add: less_Suc_eq_le length_dropWhile_le)

definition strconv_Quote :: "(string \<Rightarrow> string) \<Rightarrow> string \<Rightarrow> string" where
  "strconv_Quote hi s = dquote # quote_body hi s @ [dquote]"

fun nat_digits :: "nat \<Rightarrow> string" where
  "nat_digits n =
     (if n < 10 then [''0123456789'' ! n] else nat_digits (n div 10) @ [''0123456789'' ! (n mod 10)])"

definition Itoa :: "int \<Rightarrow> string" where
  "Itoa i = (if i < 0 then CHR ''-'' # nat_digits (nat (- i)) else nat_digits (nat i))"

section \<open>Regular expressions (regexp)\<close>

text \<open>
  The syntax of the patterns the package compiles, and \<^verbatim>\<open>MatchString\<close>: the pattern may match
  anywhere in the text, \<^verbatim>\<open>^\<close> holds only at the start of the text and \<^verbatim>\<open>$\<close> only at its end
  (no flag is set). \<open>after r b s\<close> lists what can be left of \<open>s\<close> when \<open>r\<close> has matched a
  prefix of it; \<open>b\<close> says that \<open>s\<close> is the whole text.
\<close>

datatype regexp =
    Bol
  | Eol
  | Lit string
  | OneOf string
  | Alt regexp regexp
  | Seq regexp regexp
  | Star regexp

definition Opt :: "regexp \<Rightarrow> regexp" where
  "Opt r = Alt r (Lit [])"

definition Plus :: "regexp \<Rightarrow> regexp" where
  "Plus r = Seq r (Star r)"

fun star_iter :: "(string \<Rightarrow> string list) \<Rightarrow> nat \<Rightarrow> string \<Rightarrow> string list" where
  "star_iter f 0 s = [s]"
| "star_iter f (Suc n) s =
     s # concat (map (star_iter f n) (filter (\<lambda>t. length t < length s) (f s)))"

fun after :: "regexp \<Rightarrow> bool \<Rightarrow> string \<Rightarrow> string list" where
  "after Bol b s = (if b then [s] else [])"
| "after Eol b s = (if s = [] then [s] else [])"
| "after (Lit w) b s = (case strip_prefix w s of None \<Rightarrow> [] | Some t \<Rightarrow> [t])"
| "after (OneOf cs) b s = (case s of [] \<Rightarrow> [] | c # t \<Rightarrow> if c \<in> set cs then [t] else [])"
| "after (Alt r1 r2) b s = after r1 b s @ after r2 b s"
| "after (Seq r1 r2) b s =
     concat (map (\<lambda>t. after r2 (b \<and> length t = length s) t) (after r1 b s))"
| "after (Star r) b s =
     star_iter (\<lambda>t. after r (b \<and> length t = length s) t) (length s) s"

definition MatchString :: "regexp \<Rightarrow> string \<Rightarrow> bool" where
  "MatchString re s = list_ex (\<lambda>i. after re (i = 0) (drop i s) \<noteq> []) [0..<Suc (length s)]"

text \<open>
  \<^verbatim>\<open>rangeRE = ^(>|>=|<|<=|\*\.\.)?\d+(\.\.(\*|\d+))?$\<close>
\<close>

definition digit :: regexp where
  "digit = OneOf ''0123456789''"

definition rangeRE :: regexp where
  "rangeRE =
     Seq Bol
      (Seq (Opt (Alt (Lit ''>'') (Alt (Lit ''>='') (Alt (Lit ''<'') (Alt (Lit ''<='') (Lit ''*..''))))))
        (Seq (Plus digit)
          (Seq (Opt (Seq (Lit ''..'') (Alt (Lit ''*'') (Plus digit))))
            Eol)))"

text \<open>\<^verbatim>\<open>jsonTypeRE = [/+]json($|;)\<close>\<close>

definition jsonTypeRE :: regexp where
  "jsonTypeRE = Seq (OneOf ''/+'') (Seq (Lit ''json'') (Alt Eol (Lit '';'')))"

section \<open>Qualifiers and parameters (qualifier.go)\<close>

type_synonym validator = "string \<Rightarrow> error option"

text \<open>
  The struct \<^verbatim>\<open>qualifier\<close>. The fields \<^verbatim>\<open>set\<close> and \<^verbatim>\<open>value\<close> are named \<open>set_q\<close> and
  \<open>value_q\<close>; a \<^verbatim>\<open>nil\<close> validator is \<open>None\<close>.
\<close>

record qualifier =
  key :: string
  kind :: string
  set_q :: bool
  validator :: "validator option"
  value_q :: string

type_synonym parameter = qualifier

definition NewQualifier :: "string \<Rightarrow> string \<Rightarrow> string \<Rightarrow> validator option \<Rightarrow> qualifier" where
  "NewQualifier k knd v vd = \<lparr>key = k, kind = knd, set_q = False, validator = vd, value_q = v\<rparr>"

definition NewParameter :: "string \<Rightarrow> string \<Rightarrow> string \<Rightarrow> validator option \<Rightarrow> parameter" where
  "NewParameter k knd v vd = \<lparr>key = k, kind = knd, set_q = False, validator = vd, value_q = v\<rparr>"

definition qualifier_IsSet :: "qualifier \<Rightarrow> bool" where
  "qualifier_IsSet q = set_q q"

definition qualifier_Key :: "qualifier \<Rightarrow> string" where
  "qualifier_Key q = key q"

definition qualifier_String :: "qualifier \<Rightarrow> string" where
  "qualifier_String q = value_q q"

definition qualifier_Type :: "qualifier \<Rightarrow> string" where
  "qualifier_Type q = kind q"

text \<open>
  \<^verbatim>\<open>Set\<close> works on a pointer receiver: the model returns the error (\<open>None\<close> for \<^verbatim>\<open>nil\<close>)
  together with the qualifier as the call leaves it.
\<close>

definition qualifier_Set :: "qualifier \<Rightarrow> string \<Rightarrow> error option \<times> qualifier" where
  "qualifier_Set q v =
     (case validator q of
        None \<Rightarrow> (None, q\<lparr>set_q := True, value_q := v\<rparr>)
      | Some vd \<Rightarrow>
          (case vd v of
             Some err \<Rightarrow> (Some err, q)
           | None \<Rightarrow> (None, q\<lparr>set_q := True, value_q := v\<rparr>)))"

text \<open>Whether a candidate passes the validator attached to a qualifier, if any.\<close>

definition accepts :: "qualifier \<Rightarrow> string \<Rightarrow> bool" where
  "accepts q v = (case validator q of None \<Rightarrow> True | Some vd \<Rightarrow> vd v = None)"

fun isIncluded :: "string \<Rightarrow> string list \<Rightarrow> bool" where
  "isIncluded v [] = False"
| "isIncluded v (opt # opts) = (if v = opt then True else isIncluded v opts)"

fun Join :: "string list \<Rightarrow> string \<Rightarrow> string" where
  "Join [] sep = []"
| "Join [x] sep = x"
| "Join (x # y # ys) sep = x @ sep @ Join (y # ys) sep"

definition OptsValidator :: "string list \<Rightarrow> validator" where
  "OptsValidator opts v =
     (if \<not> isIncluded v opts
      then Some (errorString (v @ '' is not included in ['' @ Join opts '', '' @ '']''))
      else None)"

definition RangeValidator :: validator where
  "RangeValidator v =
     (if \<not> MatchString rangeRE v then Some (errorString (v @ '' is an invalid range format''))
      else None)"

section \<open>Queries and results (package search)\<close>

text \<open>
  \<^verbatim>\<open>Qualifiers\<close> is a Go map from names to qualifiers. It is modelled by the list of its
  entries, in the order in which \<^verbatim>\<open>range\<close> happens to visit them. \<^verbatim>\<open>Keywords\<close> is a slice:
  the field stands for the contents of its backing array, which the caller shares with
  every function the query is passed to.
\<close>

record Query =
  Keywords :: "string list"
  Kind :: string
  Limit :: int
  Order :: parameter
  Qualifiers :: "(string \<times> qualifier) list"
  Sort :: parameter

record 'item Result =
  IncompleteResults :: bool
  Items :: "'item list"
  TotalCount :: int

text \<open>Assignment \<^verbatim>\<open>m[k] = v\<close> to a \<^verbatim>\<open>map[string]string\<close> kept as a list of entries.\<close>

fun map_assign :: "string \<Rightarrow> string \<Rightarrow> (string \<times> string) list \<Rightarrow> (string \<times> string) list" where
  "map_assign k v [] = [(k, v)]"
| "map_assign k v ((k', v') # m) =
     (if k' = k then (k, v) # m else (k', v') # map_assign k v m)"

definition ListSet :: "(string \<times> qualifier) list \<Rightarrow> (string \<times> string) list" where
  "ListSet qs =
     foldl (\<lambda>m (name, v). if qualifier_IsSet v
                             then map_assign (qualifier_Key v) (qualifier_String v) m else m)
       [] qs"

section \<open>What the Go libraries contribute\<close>

text \<open>
  Functions of the Go runtime and standard library that the package calls and whose
  results it does not control are parameters of the model:
  \<^item> \<open>QuoteHigh\<close>: what \<^verbatim>\<open>strconv.Quote\<close> writes for a maximal run of bytes above 127
    (the bytes themselves when they are printable UTF-8, escapes otherwise);
  \<^item> \<open>TrimSpace\<close>: \<^verbatim>\<open>strings.TrimSpace\<close>;
  \<^item> \<open>RangeOrder\<close>: the order in which \<^verbatim>\<open>range\<close> visits the entries of a map;
  \<^item> \<open>NewRequestError\<close>: the error of \<^verbatim>\<open>http.NewRequest\<close> for a URL text, if any;
  \<^item> \<open>URL_String\<close> and \<open>URL_Query_Get\<close>: \<^verbatim>\<open>(*url.URL).String()\<close> and
    \<^verbatim>\<open>(*url.URL).Query().Get(key)\<close>;
  \<^item> \<open>Unmarshal_Result\<close>: \<^verbatim>\<open>json.Unmarshal\<close> into a fresh \<^verbatim>\<open>search.Result\<close>;
  \<^item> \<open>Unmarshal_httpError\<close>: \<^verbatim>\<open>json.Unmarshal\<close> into a given \<^verbatim>\<open>httpError\<close>.
\<close>

record 'item golib =
  QuoteHigh :: "string \<Rightarrow> string"
  TrimSpace :: "string \<Rightarrow> string"
  RangeOrder :: "(string \<times> string) list \<Rightarrow> (string \<times> string) list"
  NewRequestError :: "string \<Rightarrow> error option"
  URL_String :: "URL \<Rightarrow> string"
  URL_Query_Get :: "URL \<Rightarrow> string \<Rightarrow> string"
  Unmarshal_Result :: "string \<Rightarrow> error + 'item Result"
  Unmarshal_httpError :: "string \<Rightarrow> httpError \<Rightarrow> error + httpError"

section \<open>Building the query text and the URLs (searcher.go)\<close>

text \<open>The characters \<^verbatim>\<open>" \"\t\r\n"\<close> that make a keyword or a value need quotes.\<close>

definition quote_chars :: string where
  "quote_chars = [CHR '' '', dquote, CHR 0x09, CHR 0x0D, CHR 0x0A]"

definition quoteKeyword :: "'item golib \<Rightarrow> string \<Rightarrow> string" where
  "quoteKeyword L k =
     (if ContainsAny k quote_chars then
        (if strings_Contains k '':'' then
           (let z = SplitN_2 k (CHR '':'')
            in (z ! 0) @ '':'' @ strconv_Quote (QuoteHigh L) (z ! 1))
         else strconv_Quote (QuoteHigh L) k)
      else k)"

text \<open>
  \<^verbatim>\<open>quoteKeywords\<close> assigns to \<^verbatim>\<open>ks[i]\<close> for every index and returns \<^verbatim>\<open>ks\<close>: the list it
  returns is also what the caller's array holds afterwards.
\<close>

definition quoteKeywords :: "'item golib \<Rightarrow> string list \<Rightarrow> string list" where
  "quoteKeywords L ks = map (quoteKeyword L) ks"

definition quoteQualifier :: "'item golib \<Rightarrow> string \<Rightarrow> string" where
  "quoteQualifier L q =
     (if ContainsAny q quote_chars then strconv_Quote (QuoteHigh L) q else q)"

text \<open>
  The text that both \<^verbatim>\<open>Search\<close> and \<^verbatim>\<open>URL\<close> write into the builder \<^verbatim>\<open>q\<close>: the quoted
  keywords joined by spaces, then \<^verbatim>\<open>" key:value"\<close> for every entry of \<^verbatim>\<open>ListSet()\<close>.
\<close>

definition query_text :: "'item golib \<Rightarrow> string list \<Rightarrow> (string \<times> qualifier) list \<Rightarrow> string" where
  "query_text L quotedKeywords qs =
     Join quotedKeywords '' '' @
     concat (map (\<lambda>(k, v). '' '' @ k @ '':'' @ quoteQualifier L v) (RangeOrder L (ListSet qs)))"

text \<open>
  \<^verbatim>\<open>url.Values\<close>, a map from keys to lists of values. \<^verbatim>\<open>Encode\<close> writes the keys in sorted
  order, so the model keeps the entries sorted by key.
\<close>

type_synonym Values = "(string \<times> string list) list"

fun Values_Set :: "string \<Rightarrow> string \<Rightarrow> Values \<Rightarrow> Values" where
  "Values_Set k v [] = [(k, [v])]"
| "Values_Set k v ((k', vs) # m) =
     (if k = k' then (k, [v]) # m
      else if k < k' then (k, [v]) # (k', vs) # m
      else (k', vs) # Values_Set k v m)"

fun Values_Add :: "string \<Rightarrow> string \<Rightarrow> Values \<Rightarrow> Values" where
  "Values_Add k v [] = [(k, [v])]"
| "Values_Add k v ((k', vs) # m) =
     (if k = k' then (k, vs @ [v]) # m
      else if k < k' then (k, [v]) # (k', vs) # m
      else (k', vs) # Values_Add k v m)"

definition shouldEscape :: "char \<Rightarrow> bool" where
  "shouldEscape c =
     (let n = (of_char c :: nat) in
      \<not> ((48 \<le> n \<and> n \<le> 57) \<or> (65 \<le> n \<and> n \<le> 90) \<or> (97 \<le> n \<and> n \<le> 122) \<or>
         c \<in> set ''-_.~''))"

definition QueryEscape :: "string \<Rightarrow> string" where
  "QueryEscape s =
     concat (map (\<lambda>c. if c = CHR '' '' then ''+''
                        else if shouldEscape c
                        then [CHR ''%'', hex_upper (of_char c div 16), hex_upper (of_char c)]
                        else [c]) s)"

definition Values_Encode :: "Values \<Rightarrow> string" where
  "Values_Encode m =
     Join (concat (map (\<lambda>(k, vs). map (\<lambda>v. QueryEscape k @ ''='' @ QueryEscape v) vs) m)) ''&''"

definition order_and_sort :: "Query \<Rightarrow> Values \<Rightarrow> Values" where
  "order_and_sort query queryString =
     (let queryString =
            (if qualifier_IsSet (Order query)
             then Values_Set (qualifier_Key (Order query)) (qualifier_String (Order query)) queryString
             else queryString)
      in if qualifier_IsSet (Sort query)
         then Values_Set (qualifier_Key (Sort query)) (qualifier_String (Sort query)) queryString
         else queryString)"

text \<open>
  \<^verbatim>\<open>URL\<close> returns the address of the search page. It takes no client. With the address the
  model returns the query as the call leaves it: \<^verbatim>\<open>quoteKeywords\<close> has written into the array
  of \<^verbatim>\<open>Keywords\<close>, which the caller's query shares.
\<close>

definition URL :: "'item golib \<Rightarrow> string \<Rightarrow> Query \<Rightarrow> string \<times> Query" where
  "URL L host query =
     (let path = ''https://'' @ host @ ''/search'';
          queryString = Values_Set ''type'' (Kind query) [];
          queryString = order_and_sort query queryString;
          quotedKeywords = quoteKeywords L (Keywords query);
          q = query_text L quotedKeywords (Qualifiers query);
          queryString = Values_Add ''q'' q queryString;
          url = path @ ''?'' @ Values_Encode queryString
      in (url, query\<lparr>Keywords := quotedKeywords\<rparr>))"

section \<open>HTTP errors (searcher.go)\<close>

record Request =
  Method :: string
  ReqURL :: URL
  Header :: "(string \<times> string) list"

text \<open>
  What the package reads of an \<^verbatim>\<open>*http.Response\<close>: \<^verbatim>\<open>Status\<close>, \<^verbatim>\<open>StatusCode\<close>, the
  \<^verbatim>\<open>Content-Type\<close> header, the outcome of \<^verbatim>\<open>io.ReadAll(resp.Body)\<close> and \<^verbatim>\<open>resp.Request.URL\<close>.
\<close>

record Response =
  resp_Status :: string
  resp_StatusCode :: int
  resp_ContentType :: string
  resp_Body :: "error + string"
  resp_Request_URL :: URL

datatype panic = IndexOutOfRange

text \<open>
  \<^verbatim>\<open>Error()\<close> of an \<^verbatim>\<open>httpError\<close>. The expression \<^verbatim>\<open>err.Errors[0]\<close> panics on an empty
  slice; the model returns the panic on the left.
\<close>

definition httpError_Error :: "'item golib \<Rightarrow> httpError \<Rightarrow> panic + string" where
  "httpError_Error L err =
     (if StatusCode err \<noteq> 422 then
        Inr (''HTTP '' @ Itoa (StatusCode err) @ '': '' @ httpError.Message err @
             '' ('' @ URL_String L (RequestURL err) @ '')'')
      else
        (let query = TrimSpace L (URL_Query_Get L (RequestURL err) ''q'')
         in case Errors err of
              [] \<Rightarrow> Inl IndexOutOfRange
            | e # _ \<Rightarrow>
                Inr (''Invalid search query '' @ strconv_Quote (QuoteHigh L) query @
                     [CHR ''.'', CHR 0x0A] @ httpErrorItem.Message e)))"

definition error_Error :: "'item golib \<Rightarrow> error \<Rightarrow> panic + string" where
  "error_Error L e = (case e of errorString m \<Rightarrow> Inr m | httpErr h \<Rightarrow> httpError_Error L h)"

definition handleHTTPError :: "'item golib \<Rightarrow> Response \<Rightarrow> error" where
  "handleHTTPError L resp =
     (let httpError = \<lparr>Errors = [], Message = [], RequestURL = resp_Request_URL resp,
                       StatusCode = resp_StatusCode resp\<rparr>
      in if \<not> MatchString jsonTypeRE (resp_ContentType resp)
         then httpErr (httpError\<lparr>Message := resp_Status resp\<rparr>)
         else (case resp_Body resp of
                 Inl err \<Rightarrow> err
               | Inr body \<Rightarrow>
                   (case Unmarshal_httpError L body httpError of
                      Inl err \<Rightarrow> err
                    | Inr httpError \<Rightarrow> httpErr httpError)))"

section \<open>Search (searcher.go)\<close>

text \<open>
  The injected \<^verbatim>\<open>*http.Client\<close> is a transition on a state of the outside world:
  \<open>Do s req\<close> gives the response or the transport error, and the next state. The variables
  of \<^verbatim>\<open>Search\<close> that its loop changes, the state of the client and the requests sent so far
  form the state of a run.
\<close>

type_synonym 's client_Do = "'s \<Rightarrow> Request \<Rightarrow> (error + Response) \<times> 's"

record ('item, 's) search_run =
  result :: "'item Result"
  queryString :: Values
  client :: 's
  sent :: "Request list"

text \<open>\<^verbatim>\<open>int(math.Ceil(float64(limit) / float64(100)))\<close>; exact as long as \<^verbatim>\<open>float64\<close> holds the limit.\<close>

definition pages_of :: "int \<Rightarrow> int" where
  "pages_of limit = \<lceil>real_of_int limit / 100\<rceil>"

definition success :: "Response \<Rightarrow> bool" where
  "success resp = (resp_StatusCode resp \<ge> 200 \<and> resp_StatusCode resp < 300)"

text \<open>
  The body of the loop for page \<open>i\<close>: \<open>(Some err, st)\<close> when it returns \<^verbatim>\<open>result, err\<close>,
  \<open>(None, st)\<close> when it reaches its end.
\<close>

definition Search_page ::
  "'item golib \<Rightarrow> 's client_Do \<Rightarrow> string \<Rightarrow> int \<Rightarrow> int \<Rightarrow> ('item, 's) search_run \<Rightarrow>
   error option \<times> ('item, 's) search_run" where
  "Search_page L Do path limit i st =
     (let qs = Values_Set ''page'' (Itoa i) (queryString st);
          remaining = limit - (i * 100);
          qs = (if remaining > 100 then Values_Set ''per_page'' ''100'' qs
                else if remaining \<le> 0 then Values_Set ''per_page'' (Itoa limit) qs
                else Values_Set ''per_page'' (Itoa remaining) qs);
          st = st\<lparr>queryString := qs\<rparr>;
          url = path @ ''?'' @ Values_Encode qs
      in case NewRequestError L url of
           Some err \<Rightarrow> (Some err, st)
         | None \<Rightarrow>
             (let req = \<lparr>Method = ''GET'', ReqURL = URL_of url,
                         Header = [(''Content-Type'', ''application/json; charset=utf-8''),
                                   (''Accept'', ''application/vnd.github.v3+json'')]\<rparr>;
                  (outcome, s) = Do (client st) req;
                  st = st\<lparr>client := s, sent := sent st @ [req]\<rparr>
              in case outcome of
                   Inl err \<Rightarrow> (Some err, st)
                 | Inr resp \<Rightarrow>
                     if \<not> success resp then (Some (handleHTTPError L resp), st)
                     else (case resp_Body resp of
                             Inl err \<Rightarrow> (Some err, st)
                           | Inr b \<Rightarrow>
                               (case Unmarshal_Result L b of
                                  Inl err \<Rightarrow> (Some err, st)
                                | Inr pageResult \<Rightarrow>
                                    (None, st\<lparr>result := (result st)
                                       \<lparr>IncompleteResults := IncompleteResults pageResult,
                                        TotalCount := TotalCount pageResult,
                                        Items := Items (result st) @ Items pageResult\<rparr>\<rparr>)))))"

function Search_pages ::
  "'item golib \<Rightarrow> 's client_Do \<Rightarrow> string \<Rightarrow> int \<Rightarrow> int \<Rightarrow> int \<Rightarrow> ('item, 's) search_run \<Rightarrow>
   error option \<times> ('item, 's) search_run" where
  "Search_pages L Do path limit pages i st =
     (if i \<le> pages then
        (case Search_page L Do path limit i st of
           (Some err, st') \<Rightarrow> (Some err, st')
         | (None, st') \<Rightarrow> Search_pages L Do path limit pages (i + 1) st')
      else (None, st))"
  by pat_completeness auto
termination
  by (relation "measure (\<lambda>(L, Do, path, limit, pages, i, st). nat (pages + 1 - i))") auto

text \<open>
  \<^verbatim>\<open>Search\<close> returns \<^verbatim>\<open>result\<close> and the error; the model returns the error, the final state
  of the run, which holds \<^verbatim>\<open>result\<close>, and the query as the call leaves it (\<^verbatim>\<open>quoteKeywords\<close>
  has written into the array of \<^verbatim>\<open>Keywords\<close>).
\<close>

definition Search_queryString :: "'item golib \<Rightarrow> Query \<Rightarrow> Values" where
  "Search_queryString L query =
     (let quotedKeywords = quoteKeywords L (Keywords query);
          q = query_text L quotedKeywords (Qualifiers query);
          queryString = Values_Set ''q'' q []
      in order_and_sort query queryString)"

definition Search ::
  "'item golib \<Rightarrow> 's client_Do \<Rightarrow> string \<Rightarrow> Query \<Rightarrow> 's \<Rightarrow>
   error option \<times> ('item, 's) search_run \<times> Query" where
  "Search L Do host query s =
     (let result = \<lparr>IncompleteResults = False, Items = [], TotalCount = 0\<rparr>;
          path = ''https://api.'' @ host @ ''/search/'' @ Kind query;
          quotedKeywords = quoteKeywords L (Keywords query);
          queryString = Search_queryString L query;
          pages = pages_of (Limit query);
          (err, st) = Search_pages L Do path (Limit query) pages 1
                        \<lparr>result = result, queryString = queryString, client = s, sent = []\<rparr>
      in (err, st, query\<lparr>Keywords := quotedKeywords\<rparr>))"

text \<open>The outcomes a client gives to a list of requests sent one after the other.\<close>

fun replay :: "'s client_Do \<Rightarrow> 's \<Rightarrow> Request list \<Rightarrow> (error + Response) list" where
  "replay Do s [] = []"
| "replay Do s (req # reqs) = (case Do s req of (outcome, s') \<Rightarrow> outcome # replay Do s' reqs)"

text \<open>The page that \<^verbatim>\<open>Search\<close> decodes from an outcome, when the outcome is a success.\<close>

definition page_of :: "'item golib \<Rightarrow> error + Response \<Rightarrow> 'item Result option" where
  "page_of L outcome =
     (case outcome of
        Inl err \<Rightarrow> None
      | Inr resp \<Rightarrow>
          if \<not> success resp then None
          else (case resp_Body resp of
                  Inl err \<Rightarrow> None
                | Inr b \<Rightarrow> (case Unmarshal_Result L b of Inl err \<Rightarrow> None | Inr p \<Rightarrow> Some p)))"

section \<open>Notions of the specification\<close>

text \<open>The words matched by a pattern that has no anchor.\<close>

fun anchor_free :: "regexp \<Rightarrow> bool" where
  "anchor_free Bol = False"
| "anchor_free Eol = False"
| "anchor_free (Lit w) = True"
| "anchor_free (OneOf cs) = True"
| "anchor_free (Alt r1 r2) = (anchor_free r1 \<and> anchor_free r2)"
| "anchor_free (Seq r1 r2) = (anchor_free r1 \<and> anchor_free r2)"
| "anchor_free (Star r) = anchor_free r"

fun lang :: "regexp \<Rightarrow> string set" where
  "lang Bol = {[]}"
| "lang Eol = {[]}"
| "lang (Lit w) = {w}"
| "lang (OneOf cs) = {[c] | c. c \<in> set cs}"
| "lang (Alt r1 r2) = lang r1 \<union> lang r2"
| "lang (Seq r1 r2) = {u @ v | u v. u \<in> lang r1 \<and> v \<in> lang r2}"
| "lang (Star r) = {concat ws | ws. set ws \<subseteq> lang r}"

text \<open>The grammar of a range, in the words of the specification.\<close>

definition integer_token :: "string \<Rightarrow> bool" where
  "integer_token d = (d \<noteq> [] \<and> list_all (\<lambda>c. c \<in> set ''0123456789'') d)"

definition range_grammar :: "string \<Rightarrow> bool" where
  "range_grammar s =
     (\<exists>p d e. s = p @ d @ e \<and>
        p \<in> {[], ''>'', ''>='', ''<'', ''<='', ''*..''} \<and>
        integer_token d \<and>
        (e = [] \<or> e = ''..*'' \<or> (\<exists>d2. e = ''..'' @ d2 \<and> integer_token d2)))"


text \<open>
  A keyword or value that ``contains whitespace or a quote character'': a space, a tab, a
  carriage return, a line feed or a double quote.
\<close>

definition needs_quotes :: "string \<Rightarrow> bool" where
  "needs_quotes k =
     list_ex (\<lambda>c. c = CHR '' '' \<or> c = CHR 0x09 \<or> c = CHR 0x0D \<or> c = CHR 0x0A \<or> c = dquote) k"

text \<open>A text that \<^verbatim>\<open>%q\<close> only has to wrap: printable ASCII, no double quote, no backslash.\<close>

definition plain_text :: "string \<Rightarrow> bool" where
  "plain_text s =
     list_all (\<lambda>c. 32 \<le> (of_char c :: nat) \<and> (of_char c :: nat) < 127 \<and> c \<noteq> dquote \<and> c \<noteq> backslash) s"

text \<open>The rule for \<^verbatim>\<open>per_page\<close> on page \<open>i\<close>, in the words of the specification.\<close>

definition per_page_spec :: "int \<Rightarrow> int \<Rightarrow> int" where
  "per_page_spec limit i =
     (let remaining = limit - i * 100
      in if remaining > 100 then 100 else if remaining \<le> 0 then limit else remaining)"

text \<open>The request for page \<open>i\<close> with that \<^verbatim>\<open>per_page\<close>.\<close>

definition page_values :: "'item golib \<Rightarrow> Query \<Rightarrow> int \<Rightarrow> Values" where
  "page_values L query i =
     Values_Set ''per_page'' (Itoa (per_page_spec (Limit query) i))
       (Values_Set ''page'' (Itoa i) (Search_queryString L query))"

definition api_path :: "string \<Rightarrow> Query \<Rightarrow> string" where
  "api_path host query = ''https://api.'' @ host @ ''/search/'' @ Kind query"

definition page_url :: "'item golib \<Rightarrow> string \<Rightarrow> Query \<Rightarrow> int \<Rightarrow> string" where
  "page_url L host query i = api_path host query @ ''?'' @ Values_Encode (page_values L query i)"

definition page_request :: "'item golib \<Rightarrow> string \<Rightarrow> Query \<Rightarrow> int \<Rightarrow> Request" where
  "page_request L host query i =
     \<lparr>Method = ''GET'', ReqURL = URL_of (page_url L host query i),
      Header = [(''Content-Type'', ''application/json; charset=utf-8''),
                (''Accept'', ''application/vnd.github.v3+json'')]\<rparr>"

text \<open>
  The parameters of a run are those of the query up to \<^verbatim>\<open>page\<close> and \<^verbatim>\<open>per_page\<close>, which
  every page sets anew.
\<close>

definition same_base :: "'item golib \<Rightarrow> Query \<Rightarrow> Values \<Rightarrow> bool" where
  "same_base L query qs =
     (\<forall>g p. Values_Set ''per_page'' p (Values_Set ''page'' g qs) =
            Values_Set ''per_page'' p (Values_Set ''page'' g (Search_queryString L query)))"

text \<open>The state in which a client is after a list of requests.\<close>

fun replay_state :: "'s client_Do \<Rightarrow> 's \<Rightarrow> Request list \<Rightarrow> 's" where
  "replay_state Do s [] = s"
| "replay_state Do s (req # reqs) = replay_state Do (snd (Do s req)) reqs"

text \<open>What the loop does to \<^verbatim>\<open>result\<close> with a decoded page.\<close>

definition merge_page :: "'item Result \<Rightarrow> 'item Result \<Rightarrow> 'item Result" where
  "merge_page r pageResult =
     r\<lparr>IncompleteResults := IncompleteResults pageResult,
       TotalCount := TotalCount pageResult,
       Items := Items r @ Items pageResult\<rparr>"

text \<open>The aggregate of a sequence of pages: all the items, the other fields of the last page.\<close>

definition aggregate :: "'item Result list \<Rightarrow> 'item Result" where
  "aggregate ps =
     (if ps = [] then \<lparr>IncompleteResults = False, Items = [], TotalCount = 0\<rparr>
      else \<lparr>IncompleteResults = IncompleteResults (last ps),
            Items = concat (map Items ps),
            TotalCount = TotalCount (last ps)\<rparr>)"

text \<open>A run of \<^verbatim>\<open>Set\<close> calls on one qualifier.\<close>

definition Set_all :: "qualifier \<Rightarrow> string list \<Rightarrow> qualifier" where
  "Set_all q vs = foldl (\<lambda>q v. snd (qualifier_Set q v)) q vs"

text \<open>An entry of \<^verbatim>\<open>ListSet()\<close> that is the key and the value of a qualifier that is set.\<close>

definition from_set_qualifier :: "(string \<times> qualifier) list \<Rightarrow> string \<times> string \<Rightarrow> bool" where
  "from_set_qualifier qs e =
     (\<exists>(name, q) \<in> set qs. qualifier_IsSet q \<and> qualifier_Key q = fst e \<and> qualifier_String q = snd e)"

section \<open>An instance of the libraries and a client, for examples\<close>

text \<open>
  The examples run the model with the following library functions. They agree with Go on
  ASCII text and on well-formed URLs; the two decoders are tables that hold the decoding
  of the bodies the examples use (an item is kept as its JSON text) and report an error
  for anything else.
\<close>

definition js :: "string \<Rightarrow> string" where
  "js s = dquote # s @ [dquote]"

definition body_page_1 :: string where
  "body_page_1 =
     ''{'' @ js ''total_count'' @ '':500,'' @ js ''incomplete_results'' @ '':false,'' @
     js ''items'' @ '':[{'' @ js ''id'' @ '':1},{'' @ js ''id'' @ '':2}]}''"

definition body_page_2 :: string where
  "body_page_2 =
     ''{'' @ js ''total_count'' @ '':500,'' @ js ''incomplete_results'' @ '':true,'' @
     js ''items'' @ '':[{'' @ js ''id'' @ '':3}]}''"

definition body_validation_failed :: string where
  "body_validation_failed =
     ''{'' @ js ''message'' @ '':'' @ js ''Validation Failed'' @ '','' @ js ''errors'' @
     '':[{'' @ js ''message'' @ '':'' @ js ''bad qualifier'' @ ''}]}''"

definition body_no_errors :: string where
  "body_no_errors = ''{'' @ js ''message'' @ '':'' @ js ''Validation Failed'' @ ''}''"

definition syntax_error_html :: error where
  "syntax_error_html =
     errorString (''invalid character '' @ [CHR 0x27] @ ''<'' @ [CHR 0x27] @
                  '' looking for beginning of value'')"

definition example_Unmarshal_Result :: "string \<Rightarrow> error + string Result" where
  "example_Unmarshal_Result b =
     (if b = body_page_1 then
        Inr \<lparr>IncompleteResults = False,
             Items = [''{'' @ js ''id'' @ '':1}'', ''{'' @ js ''id'' @ '':2}''],
             TotalCount = 500\<rparr>
      else if b = body_page_2 then
        Inr \<lparr>IncompleteResults = True, Items = [''{'' @ js ''id'' @ '':3}''], TotalCount = 500\<rparr>
      else if b = ''{}'' then
        Inr \<lparr>IncompleteResults = False, Items = [], TotalCount = 0\<rparr>
      else if b = ''<html>'' then Inl syntax_error_html
      else Inl (errorString ''unexpected end of JSON input''))"

definition example_Unmarshal_httpError :: "string \<Rightarrow> httpError \<Rightarrow> error + httpError" where
  "example_Unmarshal_httpError b h =
     (if b = body_validation_failed then
        Inr (h\<lparr>Errors := [\<lparr>Code = [], Field = [], Message = ''bad qualifier'', Resource = []\<rparr>],
               Message := ''Validation Failed''\<rparr>)
      else if b = body_no_errors then Inr (h\<lparr>Message := ''Validation Failed''\<rparr>)
      else if b = ''<html>'' then Inl syntax_error_html
      else Inl (errorString ''unexpected end of JSON input''))"

definition is_space :: "char \<Rightarrow> bool" where
  "is_space c = (c \<in> set [CHR '' '', CHR 0x09, CHR 0x0A, CHR 0x0B, CHR 0x0C, CHR 0x0D])"

definition example_TrimSpace :: "string \<Rightarrow> string" where
  "example_TrimSpace s = rev (dropWhile is_space (rev (dropWhile is_space s)))"

fun split_on :: "char \<Rightarrow> string \<Rightarrow> string list" where
  "split_on c [] = [[]]"
| "split_on c (d # s) =
     (if d = c then [] # split_on c s
      else (case split_on c s of [] \<Rightarrow> [[d]] | w # ws \<Rightarrow> (d # w) # ws))"

definition hex_value :: "char \<Rightarrow> nat" where
  "hex_value c =
     (let n = (of_char c :: nat) in
      if n \<le> 57 then n - 48 else if n \<le> 70 then n - 55 else n - 87)"

fun QueryUnescape :: "string \<Rightarrow> string" where
  "QueryUnescape (c # a # b # s) =
     (if c = CHR ''%'' then char_of (16 * hex_value a + hex_value b) # QueryUnescape s
      else (if c = CHR ''+'' then CHR '' '' else c) # QueryUnescape (a # b # s))"
| "QueryUnescape (c # s) = (if c = CHR ''+'' then CHR '' '' else c) # QueryUnescape s"
| "QueryUnescape [] = []"

fun first_value :: "string \<Rightarrow> string list \<Rightarrow> string" where
  "first_value k [] = []"
| "first_value k (p # ps) =
     (if QueryUnescape (takeWhile (\<lambda>c. c \<noteq> CHR ''='') p) = k
      then QueryUnescape (drop 1 (dropWhile (\<lambda>c. c \<noteq> CHR ''='') p))
      else first_value k ps)"

definition example_Query_Get :: "URL \<Rightarrow> string \<Rightarrow> string" where
  "example_Query_Get u k =
     (case u of URL_of text \<Rightarrow>
        first_value k (split_on (CHR ''&'') (drop 1 (dropWhile (\<lambda>c. c \<noteq> CHR ''?'') text))))"

definition example_lib :: "string golib" where
  "example_lib =
     \<lparr>QuoteHigh = (\<lambda>s. s),
      TrimSpace = example_TrimSpace,
      RangeOrder = (\<lambda>m. m),
      NewRequestError = (\<lambda>u. None),
      URL_String = (\<lambda>u. case u of URL_of text \<Rightarrow> text),
      URL_Query_Get = example_Query_Get,
      Unmarshal_Result = example_Unmarshal_Result,
      Unmarshal_httpError = example_Unmarshal_httpError\<rparr>"

text \<open>
  A client that answers from a script: each entry gives the status code, the status line,
  the content type and the body of the next response. It reports a transport error when
  the script is used up.
\<close>

definition scripted :: "(int \<times> string \<times> string \<times> string) list client_Do" where
  "scripted s req =
     (case s of
        [] \<Rightarrow> (Inl (errorString ''connection refused''), [])
      | (code, status, ct, body) # rest \<Rightarrow>
          (Inr \<lparr>resp_Status = status, resp_StatusCode = code, resp_ContentType = ct,
                resp_Body = Inr body, resp_Request_URL = ReqURL req\<rparr>, rest))"

definition example_query :: "string list \<Rightarrow> int \<Rightarrow> Query" where
  "example_query ks limit =
     \<lparr>Keywords = ks, Kind = ''repositories'', Limit = limit,
      Order = NewParameter ''order'' ''string'' ''desc'' (Some (OptsValidator [''asc'', ''desc''])),
      Qualifiers =
        [(''Fork'', NewQualifier ''fork'' ''string'' ''false''
                     (Some (OptsValidator [''false'', ''true'', ''only'']))),
         (''Stars'', NewQualifier ''stars'' ''string'' [] (Some RangeValidator))],
      Sort = NewParameter ''sort'' ''string'' ''best match''
               (Some (OptsValidator [''forks'', ''help-wanted-issues'', ''stars'', ''updated'']))\<rparr>"

definition ok_json :: "string \<Rightarrow> int \<times> string \<times> string \<times> string" where
  "ok_json body = (200, ''200 OK'', ''application/json; charset=utf-8'', body)"

section \<open>Results about qualifiers\<close>

lemma accepts_Set:
  "accepts q v \<Longrightarrow> qualifier_Set q v = (None, q\<lparr>set_q := True, value_q := v\<rparr>)"
  by (auto simp add: accepts_def qualifier_Set_def split: option.splits)

lemma rejects_Set:
  "\<not> accepts q v \<Longrightarrow> \<exists>err. qualifier_Set q v = (Some err, q)"
  by (auto simp add: accepts_def qualifier_Set_def split: option.splits)

text \<open>
  C4. A candidate that the validator rejects makes \<^verbatim>\<open>Set\<close> return an error and leave the
  qualifier as it was, so that \<^verbatim>\<open>IsSet()\<close> and \<^verbatim>\<open>String()\<close> answer as before the call; a
  candidate that the validator accepts, or any candidate when no validator is attached, is
  stored in \<^verbatim>\<open>value\<close>, \<^verbatim>\<open>set\<close> becomes true and no error is returned.
\<close>

theorem Set_rejected_or_stored:
  "(\<not> accepts q v \<longrightarrow>
      fst (qualifier_Set q v) \<noteq> None \<and> snd (qualifier_Set q v) = q \<and>
      qualifier_IsSet (snd (qualifier_Set q v)) = qualifier_IsSet q \<and>
      qualifier_String (snd (qualifier_Set q v)) = qualifier_String q) \<and>
   (accepts q v \<longrightarrow>
      fst (qualifier_Set q v) = None \<and>
      snd (qualifier_Set q v) = q\<lparr>set_q := True, value_q := v\<rparr> \<and>
      qualifier_IsSet (snd (qualifier_Set q v)) \<and>
      qualifier_String (snd (qualifier_Set q v)) = v) \<and>
   (validator q = None \<longrightarrow> accepts q v)"
proof (intro conjI impI)
  assume r: "\<not> accepts q v"
  from rejects_Set [OF r] obtain err where e: "qualifier_Set q v = (Some err, q)" ..
  show "fst (qualifier_Set q v) \<noteq> None" by (simp add: e)
  show "snd (qualifier_Set q v) = q" by (simp add: e)
  show "qualifier_IsSet (snd (qualifier_Set q v)) = qualifier_IsSet q" by (simp add: e)
  show "qualifier_String (snd (qualifier_Set q v)) = qualifier_String q" by (simp add: e)
next
  assume a: "accepts q v"
  note e = accepts_Set [OF a]
  show "fst (qualifier_Set q v) = None" by (simp add: e)
  show "snd (qualifier_Set q v) = q\<lparr>set_q := True, value_q := v\<rparr>" by (simp add: e)
  show "qualifier_IsSet (snd (qualifier_Set q v))" by (simp add: e qualifier_IsSet_def)
  show "qualifier_String (snd (qualifier_Set q v)) = v" by (simp add: e qualifier_String_def)
next
  assume "validator q = None"
  then show "accepts q v" by (simp add: accepts_def)
qed

theorem Set_rejected_or_stored_witness:
  "\<not> accepts (NewParameter ''order'' ''string'' ''desc'' (Some (OptsValidator [''asc'', ''desc'']))) ''up'' \<and>
   fst (qualifier_Set (NewParameter ''order'' ''string'' ''desc'' (Some (OptsValidator [''asc'', ''desc'']))) ''up'') \<noteq> None \<and>
   qualifier_String (snd (qualifier_Set (NewParameter ''order'' ''string'' ''desc'' (Some (OptsValidator [''asc'', ''desc'']))) ''up'')) = ''desc'' \<and>
   \<not> qualifier_IsSet (snd (qualifier_Set (NewParameter ''order'' ''string'' ''desc'' (Some (OptsValidator [''asc'', ''desc'']))) ''up'')) \<and>
   accepts (NewParameter ''order'' ''string'' ''desc'' (Some (OptsValidator [''asc'', ''desc'']))) ''asc'' \<and>
   fst (qualifier_Set (NewParameter ''order'' ''string'' ''desc'' (Some (OptsValidator [''asc'', ''desc'']))) ''asc'') = None \<and>
   qualifier_String (snd (qualifier_Set (NewParameter ''order'' ''string'' ''desc'' (Some (OptsValidator [''asc'', ''desc'']))) ''asc'')) = ''asc'' \<and>
   qualifier_IsSet (snd (qualifier_Set (NewParameter ''order'' ''string'' ''desc'' (Some (OptsValidator [''asc'', ''desc'']))) ''asc'')) \<and>
   validator (NewQualifier ''language'' ''stringSlice'' [] None) = None \<and>
   qualifier_String (snd (qualifier_Set (NewQualifier ''language'' ''stringSlice'' [] None) ''go'')) = ''go''"
proof -
  let ?p = "NewParameter ''order'' ''string'' ''desc'' (Some (OptsValidator [''asc'', ''desc'']))"
  let ?l = "NewQualifier ''language'' ''stringSlice'' [] None"
  have r: "\<not> accepts ?p ''up''"
    by (simp add: accepts_def NewParameter_def OptsValidator_def)
  have a: "accepts ?p ''asc''"
    by (simp add: accepts_def NewParameter_def OptsValidator_def)
  have n: "validator ?l = None"
    by (simp add: NewQualifier_def)
  have d: "qualifier_String ?p = ''desc''" "\<not> qualifier_IsSet ?p"
    by (simp_all add: NewParameter_def qualifier_String_def qualifier_IsSet_def)
  show ?thesis
    using r a n d Set_rejected_or_stored [of ?p "''up''"] Set_rejected_or_stored [of ?p "''asc''"]
      Set_rejected_or_stored [of ?l "''go''"]
    by (simp add: qualifier_String_def qualifier_IsSet_def)
qed

section \<open>Results about the range pattern\<close>

lemma strip_prefix_Some: "strip_prefix w s = Some t \<longleftrightarrow> s = w @ t"
  by (induction w s rule: strip_prefix.induct) auto

lemma strip_prefix_None: "strip_prefix w s = None \<longleftrightarrow> (\<forall>t. s \<noteq> w @ t)"
  by (induction w s rule: strip_prefix.induct) auto

lemma star_iter_sound:
  assumes f: "\<And>t t'. t' \<in> set (f t) \<Longrightarrow> \<exists>w \<in> L. t = w @ t'"
  shows "t \<in> set (star_iter f n s) \<Longrightarrow> \<exists>ws. set ws \<subseteq> L \<and> s = concat ws @ t"
proof (induction n arbitrary: s)
  case 0
  then have "s = concat [] @ t" by simp
  then show ?case by (metis empty_set empty_subsetI)
next
  case (Suc n)
  from Suc.prems consider "t = s" | t1 where "t1 \<in> set (f s)" "t \<in> set (star_iter f n t1)"
    by auto
  then show ?case
  proof cases
    case 1
    then have "s = concat [] @ t" by simp
    then show ?thesis by (metis empty_set empty_subsetI)
  next
    case 2
    from f [OF 2(1)] obtain w where w: "w \<in> L" "s = w @ t1" by blast
    from Suc.IH [OF 2(2)] obtain ws where ws: "set ws \<subseteq> L" "t1 = concat ws @ t" by blast
    from w ws have "set (w # ws) \<subseteq> L \<and> s = concat (w # ws) @ t" by simp
    then show ?thesis by blast
  qed
qed

lemma star_iter_head: "s \<in> set (star_iter f n s)"
  by (cases n) simp_all

lemma star_iter_step:
  "t1 \<in> set (f s) \<Longrightarrow> length t1 < length s \<Longrightarrow> t \<in> set (star_iter f n t1) \<Longrightarrow>
   t \<in> set (star_iter f (Suc n) s)"
  by auto

lemma star_iter_complete:
  assumes f: "\<And>w t. w \<in> L \<Longrightarrow> t \<in> set (f (w @ t))"
  shows "set ws \<subseteq> L \<Longrightarrow> length (concat ws @ t) \<le> n \<Longrightarrow> t \<in> set (star_iter f n (concat ws @ t))"
proof (induction ws arbitrary: n)
  case Nil
  then show ?case by (simp add: star_iter_head)
next
  case (Cons w ws)
  show ?case
  proof (cases "w = []")
    case True
    with Cons show ?thesis by simp
  next
    case False
    let ?s1 = "concat ws @ t"
    from False Cons.prems(2) have "length ?s1 < n"
      by (cases w) auto
    then obtain m where m: "n = Suc m" "length ?s1 \<le> m"
      by (cases n) auto
    from Cons.prems(1) have "w \<in> L" "set ws \<subseteq> L" by simp_all
    then have a: "?s1 \<in> set (f (w @ ?s1))" and b: "t \<in> set (star_iter f m ?s1)"
      using f Cons.IH m(2) by blast+
    from False have c: "length ?s1 < length (w @ ?s1)" by simp
    have "t \<in> set (star_iter f (Suc m) (w @ ?s1))"
      using a c b by (rule star_iter_step)
    then show ?thesis by (simp add: m(1))
  qed
qed

lemma after_lang:
  "anchor_free r \<Longrightarrow> set (after r b s) = {t. \<exists>w \<in> lang r. s = w @ t}"
proof (induction r arbitrary: b s)
  case (Lit w)
  show ?case
  proof (cases "strip_prefix w s")
    case None
    moreover from None have "\<forall>t. s \<noteq> w @ t" by (simp add: strip_prefix_None)
    ultimately show ?thesis by simp
  next
    case (Some t)
    moreover from Some have "s = w @ t" by (simp add: strip_prefix_Some)
    ultimately show ?thesis by auto
  qed
next
  case (OneOf cs)
  show ?case by (cases s) auto
next
  case (Alt r1 r2)
  then show ?case by auto
next
  case (Seq r1 r2)
  then have 1: "\<And>b s. set (after r1 b s) = {t. \<exists>w \<in> lang r1. s = w @ t}"
    and 2: "\<And>b s. set (after r2 b s) = {t. \<exists>w \<in> lang r2. s = w @ t}" by simp_all
  have "set (after (Seq r1 r2) b s) =
        (\<Union>t \<in> {t. \<exists>w \<in> lang r1. s = w @ t}. {t'. \<exists>w \<in> lang r2. t = w @ t'})"
    by (simp add: 1 2)
  also have "\<dots> = {t. \<exists>w \<in> lang (Seq r1 r2). s = w @ t}"
  proof (intro set_eqI iffI)
    fix x assume "x \<in> (\<Union>t \<in> {t. \<exists>w \<in> lang r1. s = w @ t}. {t'. \<exists>w \<in> lang r2. t = w @ t'})"
    then obtain u v where "u \<in> lang r1" "v \<in> lang r2" "s = u @ v @ x" by auto
    then have "u @ v \<in> lang (Seq r1 r2)" "s = (u @ v) @ x" by auto
    then show "x \<in> {t. \<exists>w \<in> lang (Seq r1 r2). s = w @ t}" by blast
  next
    fix x assume "x \<in> {t. \<exists>w \<in> lang (Seq r1 r2). s = w @ t}"
    then obtain u v where uv: "u \<in> lang r1" "v \<in> lang r2" "s = (u @ v) @ x" by auto
    then have "v @ x \<in> {t. \<exists>w \<in> lang r1. s = w @ t}" "x \<in> {t'. \<exists>w \<in> lang r2. v @ x = w @ t'}"
      by auto
    then show "x \<in> (\<Union>t \<in> {t. \<exists>w \<in> lang r1. s = w @ t}. {t'. \<exists>w \<in> lang r2. t = w @ t'})"
      by blast
  qed
  finally show ?case .
next
  case (Star r)
  then have ih: "\<And>b s. set (after r b s) = {t. \<exists>w \<in> lang r. s = w @ t}" by simp
  let ?f = "\<lambda>t. after r (b \<and> length t = length s) t"
  have snd: "\<And>t t'. t' \<in> set (?f t) \<Longrightarrow> \<exists>w \<in> lang r. t = w @ t'"
    by (simp add: ih)
  have cmp: "\<And>w t. w \<in> lang r \<Longrightarrow> t \<in> set (?f (w @ t))"
    by (auto simp add: ih)
  show ?case
  proof (intro set_eqI iffI)
    fix t assume "t \<in> set (after (Star r) b s)"
    then have "t \<in> set (star_iter ?f (length s) s)" by simp
    from star_iter_sound [of ?f "lang r", OF snd this]
    show "t \<in> {t. \<exists>w \<in> lang (Star r). s = w @ t}" by auto
  next
    fix t assume "t \<in> {t. \<exists>w \<in> lang (Star r). s = w @ t}"
    then obtain ws where ws: "set ws \<subseteq> lang r" "s = concat ws @ t" by auto
    from star_iter_complete [of "lang r" ?f ws t "length s", OF cmp ws(1)] ws(2)
    show "t \<in> set (after (Star r) b s)" by simp
  qed
qed simp_all


lemma MatchString_Bol: "MatchString (Seq Bol r) s \<longleftrightarrow> after r True s \<noteq> []"
proof -
  have "\<And>i. after (Seq Bol r) (i = 0) (drop i s) \<noteq> [] \<longleftrightarrow> i = 0 \<and> after r True s \<noteq> []"
    by auto
  then show ?thesis
    by (auto simp add: MatchString_def list_ex_iff simp del: after.simps)
qed

lemma after_Eol_iff: "after Eol b s \<noteq> [] \<longleftrightarrow> s \<in> {[]}"
  by simp

lemma after_Seq_iff:
  assumes r1: "anchor_free r1"
    and r2: "\<And>b t. after r2 b t \<noteq> [] \<longleftrightarrow> t \<in> M"
  shows "after (Seq r1 r2) b s \<noteq> [] \<longleftrightarrow> s \<in> {u @ v | u v. u \<in> lang r1 \<and> v \<in> M}"
proof -
  have "after (Seq r1 r2) b s \<noteq> [] \<longleftrightarrow>
        (\<exists>t \<in> set (after r1 b s). after r2 (b \<and> length t = length s) t \<noteq> [])"
    by (auto simp add: concat_eq_Nil_conv)
  also have "\<dots> \<longleftrightarrow> (\<exists>t \<in> set (after r1 b s). t \<in> M)"
    by (simp add: r2)
  also have "\<dots> \<longleftrightarrow> s \<in> {u @ v | u v. u \<in> lang r1 \<and> v \<in> M}"
    by (auto simp add: after_lang [OF r1])
  finally show ?thesis .
qed

lemma lang_Star_OneOf: "lang (Star (OneOf cs)) = {w. set w \<subseteq> set cs}"
proof (intro set_eqI iffI)
  fix w assume "w \<in> lang (Star (OneOf cs))"
  then obtain ws where ws: "w = concat ws" "set ws \<subseteq> {[c] | c. c \<in> set cs}" by auto
  have "set (concat ws) \<subseteq> set cs"
  proof
    fix x assume "x \<in> set (concat ws)"
    then obtain y where y: "y \<in> set ws" "x \<in> set y" by auto
    with ws(2) obtain c where "y = [c]" "c \<in> set cs" by blast
    with y show "x \<in> set cs" by simp
  qed
  with ws show "w \<in> {w. set w \<subseteq> set cs}" by simp
next
  fix w assume "w \<in> {w. set w \<subseteq> set cs}"
  then have "set (map (\<lambda>c. [c]) w) \<subseteq> lang (OneOf cs)" by auto
  moreover have "w = concat (map (\<lambda>c. [c]) w)" by simp
  ultimately show "w \<in> lang (Star (OneOf cs))"
    unfolding lang.simps by blast
qed

lemma lang_Plus_OneOf: "lang (Plus (OneOf cs)) = {d. d \<noteq> [] \<and> set d \<subseteq> set cs}"
proof (intro set_eqI iffI)
  fix d assume "d \<in> lang (Plus (OneOf cs))"
  then obtain c w where "d = [c] @ w" "c \<in> set cs" "set w \<subseteq> set cs"
    unfolding Plus_def lang.simps(6) lang_Star_OneOf by auto
  then show "d \<in> {d. d \<noteq> [] \<and> set d \<subseteq> set cs}" by simp
next
  fix d assume "d \<in> {d. d \<noteq> [] \<and> set d \<subseteq> set cs}"
  then obtain c w where "d = c # w" "c \<in> set cs" "set w \<subseteq> set cs"
    by (cases d) auto
  then have "d = [c] @ w" "[c] \<in> lang (OneOf cs)" "w \<in> lang (Star (OneOf cs))"
    unfolding lang_Star_OneOf by auto
  then show "d \<in> lang (Plus (OneOf cs))"
    unfolding Plus_def lang.simps(6) by blast
qed

lemma lang_Plus_digit: "lang (Plus digit) = {d. integer_token d}"
  unfolding digit_def lang_Plus_OneOf integer_token_def list_all_iff by blast

lemma rangeRE_grammar: "MatchString rangeRE s \<longleftrightarrow> range_grammar s"
proof -
  let ?P = "Opt (Alt (Lit ''>'') (Alt (Lit ''>='') (Alt (Lit ''<'') (Alt (Lit ''<='') (Lit ''*..'')))))"
  let ?O = "Opt (Seq (Lit ''..'') (Alt (Lit ''*'') (Plus digit)))"
  have afP: "anchor_free ?P" and afD: "anchor_free (Plus digit)" and afO: "anchor_free ?O"
    by (simp_all add: Opt_def Plus_def digit_def)
  have langP: "lang ?P = {[], ''>'', ''>='', ''<'', ''<='', ''*..''}"
    by (auto simp add: Opt_def)
  have "lang (Alt (Lit ''*'') (Plus digit)) = {e. e = ''*'' \<or> integer_token e}"
    unfolding lang.simps(5) lang.simps(3) lang_Plus_digit by auto
  then have "lang (Seq (Lit ''..'') (Alt (Lit ''*'') (Plus digit))) =
             {e. e = ''..*'' \<or> (\<exists>d2. e = ''..'' @ d2 \<and> integer_token d2)}"
    unfolding lang.simps(6) lang.simps(3) by auto
  then have langO: "lang ?O = {e. e = [] \<or> e = ''..*'' \<or> (\<exists>d2. e = ''..'' @ d2 \<and> integer_token d2)}"
    unfolding Opt_def lang.simps(5) lang.simps(3) by auto
  note t1 = after_Seq_iff [OF afO after_Eol_iff]
  note t2 = after_Seq_iff [OF afD t1]
  note t3 = after_Seq_iff [OF afP t2]
  have "MatchString rangeRE s \<longleftrightarrow>
        s \<in> {p @ v | p v. p \<in> lang ?P \<and>
               v \<in> {d @ v' | d v'. d \<in> lang (Plus digit) \<and>
                    v' \<in> {e @ z | e z. e \<in> lang ?O \<and> z \<in> {[]}}}}"
    unfolding rangeRE_def MatchString_Bol t3 ..
  also have "\<dots> \<longleftrightarrow> (\<exists>p d e. s = p @ d @ e \<and> p \<in> lang ?P \<and> d \<in> lang (Plus digit) \<and> e \<in> lang ?O)"
    by (simp add: ex_simps) blast
  also have "\<dots> \<longleftrightarrow> range_grammar s"
    unfolding langP langO lang_Plus_digit range_grammar_def by blast
  finally show ?thesis .
qed

lemma RangeValidator_None: "RangeValidator v = None \<longleftrightarrow> MatchString rangeRE v"
  by (simp add: RangeValidator_def)

lemmas range_eval =
  RangeValidator_def MatchString_def rangeRE_def digit_def Opt_def Plus_def

text \<open>
  C7, as the code has it. The range validator accepts exactly the texts of the grammar: an
  optional comparator prefix (\<^verbatim>\<open>>\<close>, \<^verbatim>\<open>>=\<close>, \<^verbatim>\<open><\<close>, \<^verbatim>\<open><=\<close> or \<^verbatim>\<open>*..\<close>), then an integer, then
  optionally \<^verbatim>\<open>..\<close> followed by \<^verbatim>\<open>*\<close> or by another integer. It accepts \<^verbatim>\<open>5\<close>, \<^verbatim>\<open>>=10\<close>, \<^verbatim>\<open>1..5\<close>
  and \<^verbatim>\<open>*..20\<close>; it rejects \<^verbatim>\<open>10..\<close>, \<^verbatim>\<open>abc\<close>, \<^verbatim>\<open>5..abc\<close> and \<^verbatim>\<open>>>5\<close>, and the error names the text
  and says that it is an invalid range format.
\<close>

theorem RangeValidator_grammar:
  "(RangeValidator v = None \<longleftrightarrow> range_grammar v) \<and>
   (\<not> range_grammar v \<longleftrightarrow>
      RangeValidator v = Some (errorString (v @ '' is an invalid range format''))) \<and>
   RangeValidator ''5'' = None \<and> RangeValidator ''>=10'' = None \<and>
   RangeValidator ''1..5'' = None \<and> RangeValidator ''*..20'' = None \<and>
   RangeValidator ''10..'' = Some (errorString ''10.. is an invalid range format'') \<and>
   RangeValidator ''abc'' = Some (errorString ''abc is an invalid range format'') \<and>
   RangeValidator ''5..abc'' = Some (errorString ''5..abc is an invalid range format'') \<and>
   RangeValidator ''>>5'' = Some (errorString ''>>5 is an invalid range format'')"
proof (intro conjI)
  show "RangeValidator v = None \<longleftrightarrow> range_grammar v"
    by (simp add: RangeValidator_None rangeRE_grammar)
  show "\<not> range_grammar v \<longleftrightarrow>
        RangeValidator v = Some (errorString (v @ '' is an invalid range format''))"
    by (simp add: RangeValidator_def rangeRE_grammar)
  show "RangeValidator ''5'' = None" by (simp add: range_eval)
  show "RangeValidator ''>=10'' = None" by (simp add: range_eval)
  show "RangeValidator ''1..5'' = None" by (simp add: range_eval)
  show "RangeValidator ''*..20'' = None" by (simp add: range_eval)
  show "RangeValidator ''10..'' = Some (errorString ''10.. is an invalid range format'')"
    by (simp add: range_eval)
  show "RangeValidator ''abc'' = Some (errorString ''abc is an invalid range format'')"
    by (simp add: range_eval)
  show "RangeValidator ''5..abc'' = Some (errorString ''5..abc is an invalid range format'')"
    by (simp add: range_eval)
  show "RangeValidator ''>>5'' = Some (errorString ''>>5 is an invalid range format'')"
    by (simp add: range_eval)
qed

theorem RangeValidator_grammar_witness:
  "RangeValidator ''100..*'' = None \<and> range_grammar ''100..*'' \<and>
   RangeValidator ''1..'' \<noteq> None \<and> \<not> range_grammar ''1..''"
proof -
  have a: "RangeValidator ''100..*'' = None" by (simp add: range_eval)
  have b: "RangeValidator ''1..'' \<noteq> None" by (simp add: range_eval)
  have c: "range_grammar ''100..*''"
    using a RangeValidator_grammar [of "''100..*''", THEN conjunct1] by simp
  have d: "\<not> range_grammar ''1..''"
    using b RangeValidator_grammar [of "''1..''", THEN conjunct1] by simp
  from a b c d show ?thesis by simp
qed

text \<open>
  The claim C7 as it is written has the validator accept \<^verbatim>\<open>10..\<close>. The code rejects it: after
  \<^verbatim>\<open>..\<close> the pattern requires \<^verbatim>\<open>*\<close> or a digit.
\<close>

theorem RangeValidator_open_range_rejected:
  "RangeValidator ''10..'' = Some (errorString ''10.. is an invalid range format'') \<and>
   \<not> MatchString rangeRE ''10..''"
  by (simp add: range_eval)

section \<open>Results about quoting\<close>

lemma ContainsAny_quote_chars: "ContainsAny k quote_chars \<longleftrightarrow> needs_quotes k"
  by (auto simp add: ContainsAny_def quote_chars_def needs_quotes_def list_ex_iff)

lemma strip_prefix_single: "strip_prefix [c] s \<noteq> None \<longleftrightarrow> (\<exists>t. s = c # t)"
  by (cases s) auto

lemma strings_Contains_single: "strings_Contains k [c] \<longleftrightarrow> c \<in> set k"
proof (induction k)
  case Nil
  show ?case by simp
next
  case (Cons d k)
  have "strip_prefix [c] (d # k) \<noteq> None \<longleftrightarrow> c = d" by auto
  with Cons show ?case by auto
qed

lemma SplitN_2_first:
  assumes "c \<notin> set p"
  shows "SplitN_2 (p @ c # v) c = [p, v]"
proof -
  from assms have "takeWhile (\<lambda>x. x \<noteq> c) (p @ c # v) = p"
    by (induction p) auto
  moreover from assms have "dropWhile (\<lambda>x. x \<noteq> c) (p @ c # v) = c # v"
    by (induction p) auto
  ultimately show ?thesis by (simp add: SplitN_2_def)
qed

lemma quote_body_plain: "plain_text s \<Longrightarrow> quote_body hi s = s"
proof (induction s)
  case Nil
  show ?case by simp
next
  case (Cons c s)
  then have c: "32 \<le> (of_char c :: nat)" "(of_char c :: nat) < 127" "c \<noteq> dquote" "c \<noteq> backslash"
    and s: "plain_text s"
    by (simp_all add: plain_text_def)
  from c have "is_ascii c" "quote_ascii c = [c]"
    by (simp_all add: is_ascii_def quote_ascii_def)
  with Cons.IH [OF s] show ?case by simp
qed

lemma quoteKeyword_unquoted: "\<not> needs_quotes k \<Longrightarrow> quoteKeyword L k = k"
  by (simp add: quoteKeyword_def ContainsAny_quote_chars)

lemma quoteKeyword_whole:
  "needs_quotes k \<Longrightarrow> CHR '':'' \<notin> set k \<Longrightarrow> quoteKeyword L k = strconv_Quote (QuoteHigh L) k"
  by (simp add: quoteKeyword_def ContainsAny_quote_chars strings_Contains_single)

lemma quoteKeyword_split:
  assumes "needs_quotes (p @ '':'' @ v)" and "CHR '':'' \<notin> set p"
  shows "quoteKeyword L (p @ '':'' @ v) = p @ '':'' @ strconv_Quote (QuoteHigh L) v"
proof -
  have "SplitN_2 (p @ '':'' @ v) (CHR '':'') = [p, v]"
    using SplitN_2_first [OF assms(2), of v] by simp
  moreover have "strings_Contains (p @ '':'' @ v) '':''"
    by (simp add: strings_Contains_single)
  ultimately show ?thesis
    using assms(1) by (simp add: quoteKeyword_def ContainsAny_quote_chars Let_def)
qed

text \<open>
  C6. A keyword without a space, a tab, a carriage return, a line feed or a double quote
  is emitted as it is. A keyword with one of them and no colon is quoted whole. A keyword
  with one of them and a colon is cut at its first colon: the part before the colon stays
  as it is and the part after the colon is quoted. Quoting is that of \<^verbatim>\<open>%q\<close>: the text goes
  between double quotes, unchanged when it is printable ASCII without double quote or
  backslash. So \<^verbatim>\<open>label:in progress\<close> becomes \<^verbatim>\<open>label:"in progress"\<close>, \<^verbatim>\<open>hello world\<close> becomes
  \<^verbatim>\<open>"hello world"\<close> and \<^verbatim>\<open>simple\<close> stays \<^verbatim>\<open>simple\<close>.
\<close>

theorem quoteKeyword_quotes:
  "(\<not> needs_quotes k \<longrightarrow> quoteKeyword L k = k) \<and>
   (needs_quotes k \<and> CHR '':'' \<notin> set k \<longrightarrow> quoteKeyword L k = strconv_Quote (QuoteHigh L) k) \<and>
   (needs_quotes k \<and> k = p @ '':'' @ v \<and> CHR '':'' \<notin> set p \<longrightarrow>
      quoteKeyword L k = p @ '':'' @ strconv_Quote (QuoteHigh L) v) \<and>
   strconv_Quote (QuoteHigh L) s = dquote # quote_body (QuoteHigh L) s @ [dquote] \<and>
   (plain_text s \<longrightarrow> strconv_Quote (QuoteHigh L) s = dquote # s @ [dquote]) \<and>
   quoteKeyword L ''label:in progress'' = ''label:'' @ dquote # ''in progress'' @ [dquote] \<and>
   quoteKeyword L ''hello world'' = dquote # ''hello world'' @ [dquote] \<and>
   quoteKeyword L ''simple'' = ''simple''"
proof (intro conjI impI)
  show "quoteKeyword L k = k" if "\<not> needs_quotes k"
    using that by (rule quoteKeyword_unquoted)
  show "quoteKeyword L k = strconv_Quote (QuoteHigh L) k"
    if "needs_quotes k \<and> CHR '':'' \<notin> set k"
    using that by (simp add: quoteKeyword_whole)
  show "quoteKeyword L k = p @ '':'' @ strconv_Quote (QuoteHigh L) v"
    if "needs_quotes k \<and> k = p @ '':'' @ v \<and> CHR '':'' \<notin> set p"
    using that quoteKeyword_split [of p v L] by blast
  show "strconv_Quote (QuoteHigh L) s = dquote # quote_body (QuoteHigh L) s @ [dquote]"
    by (simp add: strconv_Quote_def)
  show "strconv_Quote (QuoteHigh L) s = dquote # s @ [dquote]" if "plain_text s"
    using that by (simp add: strconv_Quote_def quote_body_plain)
  have a: "needs_quotes (''label'' @ '':'' @ ''in progress'')" "CHR '':'' \<notin> set ''label''"
    "plain_text ''in progress''"
    by (simp_all add: needs_quotes_def plain_text_def dquote_def backslash_def)
  have "quoteKeyword L (''label'' @ '':'' @ ''in progress'') =
        ''label'' @ '':'' @ dquote # ''in progress'' @ [dquote]"
    unfolding quoteKeyword_split [OF a(1,2)] strconv_Quote_def quote_body_plain [OF a(3)] ..
  then show "quoteKeyword L ''label:in progress'' = ''label:'' @ dquote # ''in progress'' @ [dquote]"
    by (simp only: append.simps)
  have b: "needs_quotes ''hello world''" "CHR '':'' \<notin> set ''hello world''"
    "plain_text ''hello world''"
    by (simp_all add: needs_quotes_def plain_text_def dquote_def backslash_def)
  show "quoteKeyword L ''hello world'' = dquote # ''hello world'' @ [dquote]"
    unfolding quoteKeyword_whole [OF b(1,2)] strconv_Quote_def quote_body_plain [OF b(3)] ..
  have "\<not> needs_quotes ''simple''"
    by (simp add: needs_quotes_def dquote_def)
  then show "quoteKeyword L ''simple'' = ''simple''"
    by (rule quoteKeyword_unquoted)
qed

theorem quoteKeyword_quotes_witness:
  "\<not> needs_quotes ''cli'' \<and> quoteKeyword example_lib ''cli'' = ''cli'' \<and>
   needs_quotes ''a b'' \<and> CHR '':'' \<notin> set ''a b'' \<and>
   quoteKeyword example_lib ''a b'' = dquote # ''a b'' @ [dquote] \<and>
   needs_quotes ''x y:z:w'' \<and> CHR '':'' \<notin> set ''x y'' \<and> plain_text ''z:w'' \<and>
   quoteKeyword example_lib ''x y:z:w'' = ''x y:'' @ dquote # ''z:w'' @ [dquote]"
proof -
  have 1: "\<not> needs_quotes ''cli''"
    by (simp add: needs_quotes_def dquote_def)
  have 2: "needs_quotes ''a b''" "CHR '':'' \<notin> set ''a b''" "plain_text ''a b''"
    by (simp_all add: needs_quotes_def plain_text_def dquote_def backslash_def)
  have 3: "needs_quotes ''x y:z:w''" "''x y:z:w'' = ''x y'' @ '':'' @ ''z:w''"
    "CHR '':'' \<notin> set ''x y''" "plain_text ''z:w''"
    by (simp_all add: needs_quotes_def plain_text_def dquote_def backslash_def)
  from 1 have a: "quoteKeyword example_lib ''cli'' = ''cli''"
    using quoteKeyword_quotes [of "''cli''" example_lib] by blast
  from 2 have b: "quoteKeyword example_lib ''a b'' = dquote # ''a b'' @ [dquote]"
    using quoteKeyword_quotes [of "''a b''" example_lib _ _ "''a b''"] by metis
  have "quoteKeyword example_lib ''x y:z:w'' = ''x y'' @ '':'' @ dquote # ''z:w'' @ [dquote]"
    using 3 quoteKeyword_quotes [of "''x y:z:w''" example_lib "''x y''" "''z:w''" "''z:w''"]
    by metis
  then have c: "quoteKeyword example_lib ''x y:z:w'' = ''x y:'' @ dquote # ''z:w'' @ [dquote]"
    by (simp only: append.simps)
  from 1 2 3 a b c show ?thesis by blast
qed

section \<open>Results about the set flag and its use\<close>

lemma validator_Set: "validator (snd (qualifier_Set q v)) = validator q"
  by (simp add: qualifier_Set_def split: option.splits)

lemma accepts_after_Set: "accepts (snd (qualifier_Set q v)) c = accepts q c"
  by (simp add: accepts_def validator_Set)

lemma IsSet_Set:
  "qualifier_IsSet (snd (qualifier_Set q v)) \<longleftrightarrow> qualifier_IsSet q \<or> accepts q v"
  by (auto simp add: qualifier_Set_def accepts_def qualifier_IsSet_def split: option.splits)

lemma IsSet_Set_all:
  "qualifier_IsSet (Set_all q vs) \<longleftrightarrow> qualifier_IsSet q \<or> (\<exists>v \<in> set vs. accepts q v)"
proof (induction vs arbitrary: q)
  case Nil
  show ?case by (simp add: Set_all_def)
next
  case (Cons v vs)
  have "Set_all q (v # vs) = Set_all (snd (qualifier_Set q v)) vs"
    by (simp add: Set_all_def)
  then show ?case
    using Cons.IH [of "snd (qualifier_Set q v)"]
    by (auto simp add: IsSet_Set accepts_after_Set)
qed

lemma set_map_assign: "set (map_assign k v m) \<subseteq> insert (k, v) (set m)"
  by (induction m) (auto split: if_splits)

lemma ListSet_step_entries:
  assumes "\<forall>e \<in> set m. from_set_qualifier (ps @ qs) e"
  shows "\<forall>e \<in> set (foldl (\<lambda>m (name, v). if qualifier_IsSet v
                             then map_assign (qualifier_Key v) (qualifier_String v) m else m)
                     m qs). from_set_qualifier (ps @ qs) e"
  using assms
proof (induction qs arbitrary: m ps)
  case Nil
  then show ?case by simp
next
  case (Cons x qs)
  obtain name q where x: "x = (name, q)" by (cases x)
  let ?m = "if qualifier_IsSet q then map_assign (qualifier_Key q) (qualifier_String q) m else m"
  have "\<forall>e \<in> set ?m. from_set_qualifier ((ps @ [x]) @ qs) e"
  proof
    fix e assume e: "e \<in> set ?m"
    show "from_set_qualifier ((ps @ [x]) @ qs) e"
    proof (cases "e \<in> set m")
      case True
      with Cons.prems show ?thesis by simp
    next
      case False
      with e have "qualifier_IsSet q" "e = (qualifier_Key q, qualifier_String q)"
        using set_map_assign [of "qualifier_Key q" "qualifier_String q" m]
        by (auto split: if_splits)
      then show ?thesis
        by (auto simp add: from_set_qualifier_def x)
    qed
  qed
  from Cons.IH [OF this] show ?case by (simp add: x)
qed

lemma ListSet_entries: "e \<in> set (ListSet qs) \<Longrightarrow> from_set_qualifier qs e"
  using ListSet_step_entries [of "[]" "[]" qs] by (simp add: ListSet_def)

lemma foldl_filter_skip:
  assumes "\<And>m x. \<not> P x \<Longrightarrow> f m x = m"
  shows "foldl f m (filter P xs) = foldl f m xs"
  by (induction xs arbitrary: m) (simp_all add: assms)

lemma ListSet_filter: "ListSet (filter (\<lambda>(name, q). qualifier_IsSet q) qs) = ListSet qs"
  unfolding ListSet_def
  by (rule foldl_filter_skip) auto

lemma ListSet_none_set:
  assumes "list_all (\<lambda>(name, q). \<not> qualifier_IsSet q) qs"
  shows "ListSet qs = []"
proof -
  from assms have "filter (\<lambda>(name, q). qualifier_IsSet q) qs = []"
    by (auto simp add: list_all_iff filter_empty_conv)
  with ListSet_filter [of qs] show ?thesis by (simp add: ListSet_def)
qed

text \<open>
  C5. After any run of \<^verbatim>\<open>Set\<close> calls on a freshly constructed qualifier, \<^verbatim>\<open>IsSet()\<close> is true
  exactly when one of the candidates passed the validator (every candidate does when no
  validator is attached). A fresh qualifier or parameter reports \<^verbatim>\<open>IsSet() == false\<close>
  whatever its default value. Every entry of \<^verbatim>\<open>ListSet()\<close> comes from a qualifier that is
  set, and dropping the qualifiers that are not set changes neither \<^verbatim>\<open>ListSet()\<close>, nor
  the query text, nor the URL, nor the parameters of the search requests: such a qualifier
  adds no token, even with a default value that is not empty.
\<close>

theorem IsSet_iff_Set_accepted:
  "(qualifier_IsSet (Set_all (NewQualifier k knd d vd) vs) \<longleftrightarrow>
      (\<exists>v \<in> set vs. accepts (NewQualifier k knd d vd) v)) \<and>
   \<not> qualifier_IsSet (NewQualifier k knd d vd) \<and>
   \<not> qualifier_IsSet (NewParameter k knd d vd) \<and>
   ((key', val') \<in> set (ListSet qs) \<longrightarrow>
      (\<exists>(name, q) \<in> set qs. qualifier_IsSet q \<and> qualifier_Key q = key' \<and> qualifier_String q = val')) \<and>
   (list_all (\<lambda>(name, q). \<not> qualifier_IsSet q) qs \<longrightarrow> ListSet qs = []) \<and>
   ListSet (filter (\<lambda>(name, q). qualifier_IsSet q) qs) = ListSet qs \<and>
   query_text L ks (filter (\<lambda>(name, q). qualifier_IsSet q) qs) = query_text L ks qs \<and>
   fst (URL L host (query\<lparr>Qualifiers := filter (\<lambda>(name, q). qualifier_IsSet q) (Qualifiers query)\<rparr>)) =
     fst (URL L host query) \<and>
   Search_queryString L (query\<lparr>Qualifiers := filter (\<lambda>(name, q). qualifier_IsSet q) (Qualifiers query)\<rparr>) =
     Search_queryString L query"
proof (intro conjI impI)
  have fresh: "\<not> qualifier_IsSet (NewQualifier k knd d vd)"
    by (simp add: NewQualifier_def qualifier_IsSet_def)
  then show "\<not> qualifier_IsSet (NewQualifier k knd d vd)" .
  show "\<not> qualifier_IsSet (NewParameter k knd d vd)"
    by (simp add: NewParameter_def qualifier_IsSet_def)
  show "qualifier_IsSet (Set_all (NewQualifier k knd d vd) vs) \<longleftrightarrow>
        (\<exists>v \<in> set vs. accepts (NewQualifier k knd d vd) v)"
    using fresh by (simp add: IsSet_Set_all)
  show "\<exists>(name, q) \<in> set qs. qualifier_IsSet q \<and> qualifier_Key q = key' \<and> qualifier_String q = val'"
    if "(key', val') \<in> set (ListSet qs)"
    using ListSet_entries [OF that] by (simp add: from_set_qualifier_def)
  show "ListSet qs = []" if "list_all (\<lambda>(name, q). \<not> qualifier_IsSet q) qs"
    using that by (rule ListSet_none_set)
  show "ListSet (filter (\<lambda>(name, q). qualifier_IsSet q) qs) = ListSet qs"
    by (rule ListSet_filter)
  show "query_text L ks (filter (\<lambda>(name, q). qualifier_IsSet q) qs) = query_text L ks qs"
    by (simp add: query_text_def ListSet_filter)
  show "fst (URL L host (query\<lparr>Qualifiers := filter (\<lambda>(name, q). qualifier_IsSet q) (Qualifiers query)\<rparr>)) =
        fst (URL L host query)"
    by (simp add: URL_def Let_def query_text_def ListSet_filter order_and_sort_def)
  show "Search_queryString L (query\<lparr>Qualifiers := filter (\<lambda>(name, q). qualifier_IsSet q) (Qualifiers query)\<rparr>) =
        Search_queryString L query"
    by (simp add: Search_queryString_def Let_def query_text_def ListSet_filter order_and_sort_def)
qed

theorem IsSet_iff_Set_accepted_witness:
  "qualifier_IsSet
     (Set_all (NewQualifier ''fork'' ''string'' ''false''
                 (Some (OptsValidator [''false'', ''true'', ''only''])))
        [''maybe'', ''only'']) \<and>
   accepts (NewQualifier ''fork'' ''string'' ''false''
              (Some (OptsValidator [''false'', ''true'', ''only'']))) ''only'' \<and>
   (''stars'', ''>5'') \<in> set (ListSet
      [(''Fork'', NewQualifier ''fork'' ''string'' ''false''
                   (Some (OptsValidator [''false'', ''true'', ''only'']))),
       (''Stars'', snd (qualifier_Set (NewQualifier ''stars'' ''string'' [] (Some RangeValidator)) ''>5''))]) \<and>
   list_all (\<lambda>(name, q). \<not> qualifier_IsSet q)
     [(''Fork'', NewQualifier ''fork'' ''string'' ''false''
                  (Some (OptsValidator [''false'', ''true'', ''only''])))] \<and>
   ListSet [(''Fork'', NewQualifier ''fork'' ''string'' ''false''
                        (Some (OptsValidator [''false'', ''true'', ''only''])))] = []"
proof -
  let ?fork = "NewQualifier ''fork'' ''string'' ''false''
                 (Some (OptsValidator [''false'', ''true'', ''only'']))"
  let ?stars = "snd (qualifier_Set (NewQualifier ''stars'' ''string'' [] (Some RangeValidator)) ''>5'')"
  have a: "accepts ?fork ''only''"
    by (simp add: accepts_def NewQualifier_def OptsValidator_def)
  then have b: "\<exists>v \<in> set [''maybe'', ''only'']. accepts ?fork v"
    by simp
  have "RangeValidator ''>5'' = None"
    by (simp add: range_eval)
  then have c: "(''stars'', ''>5'') \<in> set (ListSet [(''Fork'', ?fork), (''Stars'', ?stars)])"
    by (simp add: ListSet_def NewQualifier_def qualifier_Set_def qualifier_IsSet_def
        qualifier_Key_def qualifier_String_def)
  have d: "list_all (\<lambda>(name, q). \<not> qualifier_IsSet q) [(''Fork'', ?fork)]"
    by (simp add: NewQualifier_def qualifier_IsSet_def)
  note t1 = IsSet_iff_Set_accepted [of "''fork''" "''string''" "''false''"
      "Some (OptsValidator [''false'', ''true'', ''only''])" "[''maybe'', ''only'']"
      "''stars''" "''>5''" "[(''Fork'', ?fork), (''Stars'', ?stars)]"]
  note t2 = IsSet_iff_Set_accepted [of _ _ _ _ _ _ _ "[(''Fork'', ?fork)]"]
  from t1 b have e: "qualifier_IsSet (Set_all ?fork [''maybe'', ''only''])"
    by blast
  from t2 d have f: "ListSet [(''Fork'', ?fork)] = []"
    by blast
  from a c d e f show ?thesis by blast
qed

section \<open>Results about URL\<close>

lemma quoteKeywords_unquoted:
  assumes "\<forall>k \<in> set ks. \<not> needs_quotes k"
  shows "quoteKeywords L ks = ks"
  unfolding quoteKeywords_def using assms
  by (induction ks) (simp_all add: quoteKeyword_unquoted)

text \<open>
  C9, as the code has it. \<^verbatim>\<open>URL\<close> takes no client and sends nothing. It returns the address
  \<^verbatim>\<open>https://<host>/search?<parameters>\<close>, with the parameter \<^verbatim>\<open>type\<close>, the order and sort
  parameters that are set, and \<^verbatim>\<open>q\<close>. It leaves \<^verbatim>\<open>Kind\<close>, \<^verbatim>\<open>Limit\<close>, \<^verbatim>\<open>Order\<close>, \<^verbatim>\<open>Sort\<close> and every
  qualifier of the query as they were, and it overwrites every element of the array of
  \<^verbatim>\<open>Keywords\<close> with its quoted form; the keywords are as before when none of them contains a
  space, a tab, a carriage return, a line feed or a double quote.
\<close>

theorem URL_frame:
  "snd (URL L host query) = query\<lparr>Keywords := map (quoteKeyword L) (Keywords query)\<rparr> \<and>
   Kind (snd (URL L host query)) = Kind query \<and>
   Limit (snd (URL L host query)) = Limit query \<and>
   Order (snd (URL L host query)) = Order query \<and>
   Sort (snd (URL L host query)) = Sort query \<and>
   Qualifiers (snd (URL L host query)) = Qualifiers query \<and>
   ((\<forall>k \<in> set (Keywords query). \<not> needs_quotes k) \<longrightarrow> snd (URL L host query) = query) \<and>
   fst (URL L host query) =
     ''https://'' @ host @ ''/search?'' @
     Values_Encode
       (Values_Add ''q'' (query_text L (map (quoteKeyword L) (Keywords query)) (Qualifiers query))
         (order_and_sort query (Values_Set ''type'' (Kind query) [])))"
proof -
  have u: "snd (URL L host query) = query\<lparr>Keywords := map (quoteKeyword L) (Keywords query)\<rparr>"
    by (simp add: URL_def Let_def quoteKeywords_def)
  have "snd (URL L host query) = query" if "\<forall>k \<in> set (Keywords query). \<not> needs_quotes k"
    using quoteKeywords_unquoted [OF that, of L] by (simp add: u quoteKeywords_def)
  moreover have "fst (URL L host query) =
     ''https://'' @ host @ ''/search?'' @
     Values_Encode
       (Values_Add ''q'' (query_text L (map (quoteKeyword L) (Keywords query)) (Qualifiers query))
         (order_and_sort query (Values_Set ''type'' (Kind query) [])))"
    by (simp add: URL_def Let_def quoteKeywords_def)
  ultimately show ?thesis by (simp add: u)
qed

theorem URL_frame_witness:
  "list_all (\<lambda>k. \<not> needs_quotes k) (Keywords (example_query [''cli'', ''go''] 30)) \<and>
   snd (URL example_lib ''github.com'' (example_query [''cli'', ''go''] 30)) =
     example_query [''cli'', ''go''] 30"
proof -
  have h: "list_all (\<lambda>k. \<not> needs_quotes k) (Keywords (example_query [''cli'', ''go''] 30))"
    by (simp add: example_query_def needs_quotes_def dquote_def)
  then have "\<forall>k \<in> set (Keywords (example_query [''cli'', ''go''] 30)). \<not> needs_quotes k"
    by (simp only: list_all_iff)
  with URL_frame [of example_lib "''github.com''" "example_query [''cli'', ''go''] 30"]
  have "snd (URL example_lib ''github.com'' (example_query [''cli'', ''go''] 30)) =
     example_query [''cli'', ''go''] 30"
    by blast
  with h show ?thesis by (rule conjI)
qed

text \<open>
  The claim C9 as it is written has \<^verbatim>\<open>URL\<close> leave the \<^verbatim>\<open>Keywords\<close> of the query unchanged. For
  the keyword \<^verbatim>\<open>hello world\<close> the array holds \<^verbatim>\<open>"hello world"\<close> after the call.
\<close>

theorem URL_rewrites_Keywords:
  "Keywords (example_query [''hello world''] 30) = [''hello world''] \<and>
   Keywords (snd (URL example_lib ''github.com'' (example_query [''hello world''] 30))) =
     [dquote # ''hello world'' @ [dquote]] \<and>
   Keywords (snd (URL example_lib ''github.com'' (example_query [''hello world''] 30))) \<noteq>
     Keywords (example_query [''hello world''] 30)"
  by (simp add: URL_def Let_def example_query_def quoteKeywords_def quoteKeyword_def
      ContainsAny_def quote_chars_def strconv_Quote_def example_lib_def is_ascii_def
      quote_ascii_def dquote_def backslash_def)

section \<open>Results about HTTP errors\<close>

lemma handleHTTPError_not_json:
  assumes "\<not> MatchString jsonTypeRE (resp_ContentType resp)"
  shows "handleHTTPError L resp =
         httpErr \<lparr>Errors = [], Message = resp_Status resp, RequestURL = resp_Request_URL resp,
                  StatusCode = resp_StatusCode resp\<rparr>"
  using assms by (simp add: handleHTTPError_def)

text \<open>
  C10. For an \<^verbatim>\<open>httpError\<close> with status code 422, \<^verbatim>\<open>Error()\<close> reads \<^verbatim>\<open>Errors[0]\<close>: it panics
  with an index out of range when \<^verbatim>\<open>Errors\<close> is empty, and it returns a message, which ends
  with the message of the first element, exactly when \<^verbatim>\<open>Errors\<close> is not empty. An empty
  \<^verbatim>\<open>Errors\<close> does arise: \<^verbatim>\<open>handleHTTPError\<close> builds such an error from a 422 response whose
  content type is not JSON, and returns one whenever the decoder leaves \<^verbatim>\<open>Errors\<close> empty.
\<close>

theorem Error_422_needs_Errors:
  "(StatusCode err = 422 \<and> Errors err = [] \<longrightarrow> httpError_Error L err = Inl IndexOutOfRange) \<and>
   (StatusCode err = 422 \<longrightarrow> ((\<exists>m. httpError_Error L err = Inr m) \<longleftrightarrow> Errors err \<noteq> [])) \<and>
   (StatusCode err = 422 \<and> Errors err \<noteq> [] \<longrightarrow>
      httpError_Error L err =
        Inr (''Invalid search query '' @
             strconv_Quote (QuoteHigh L) (TrimSpace L (URL_Query_Get L (RequestURL err) ''q'')) @
             [CHR ''.'', CHR 0x0A] @ httpErrorItem.Message (Errors err ! 0))) \<and>
   (StatusCode err \<noteq> 422 \<longrightarrow> (\<exists>m. httpError_Error L err = Inr m)) \<and>
   (resp_StatusCode resp = 422 \<and> \<not> MatchString jsonTypeRE (resp_ContentType resp) \<longrightarrow>
      error_Error L (handleHTTPError L resp) = Inl IndexOutOfRange) \<and>
   (handleHTTPError L resp = httpErr h \<and> StatusCode h = 422 \<and> Errors h = [] \<longrightarrow>
      error_Error L (handleHTTPError L resp) = Inl IndexOutOfRange)"
proof (intro conjI impI)
  show "httpError_Error L err = Inl IndexOutOfRange" if "StatusCode err = 422 \<and> Errors err = []"
    using that by (simp add: httpError_Error_def)
  show "(\<exists>m. httpError_Error L err = Inr m) \<longleftrightarrow> Errors err \<noteq> []" if "StatusCode err = 422"
    using that by (cases "Errors err") (simp_all add: httpError_Error_def)
  show "httpError_Error L err =
        Inr (''Invalid search query '' @
             strconv_Quote (QuoteHigh L) (TrimSpace L (URL_Query_Get L (RequestURL err) ''q'')) @
             [CHR ''.'', CHR 0x0A] @ httpErrorItem.Message (Errors err ! 0))"
    if "StatusCode err = 422 \<and> Errors err \<noteq> []"
    using that by (cases "Errors err") (simp_all add: httpError_Error_def)
  show "\<exists>m. httpError_Error L err = Inr m" if "StatusCode err \<noteq> 422"
    using that by (simp add: httpError_Error_def)
  show "error_Error L (handleHTTPError L resp) = Inl IndexOutOfRange"
    if "resp_StatusCode resp = 422 \<and> \<not> MatchString jsonTypeRE (resp_ContentType resp)"
    using that by (simp add: handleHTTPError_not_json error_Error_def httpError_Error_def)
  show "error_Error L (handleHTTPError L resp) = Inl IndexOutOfRange"
    if "handleHTTPError L resp = httpErr h \<and> StatusCode h = 422 \<and> Errors h = []"
    using that by (simp add: error_Error_def httpError_Error_def)
qed

theorem Error_422_needs_Errors_witness:
  "httpError_Error example_lib
     \<lparr>Errors = [], Message = ''Validation Failed'',
      RequestURL = URL_of ''https://api.github.com/search/repositories?page=1&per_page=30&q=cli'',
      StatusCode = 422\<rparr> = Inl IndexOutOfRange \<and>
   httpError_Error example_lib
     \<lparr>Errors = [\<lparr>Code = [], Field = [], Message = ''bad qualifier'', Resource = []\<rparr>],
      Message = ''Validation Failed'',
      RequestURL = URL_of ''https://api.github.com/search/repositories?page=1&per_page=30&q=cli'',
      StatusCode = 422\<rparr> =
     Inr (''Invalid search query '' @ dquote # ''cli'' @ [dquote] @
          [CHR ''.'', CHR 0x0A] @ ''bad qualifier'') \<and>
   (\<exists>m. httpError_Error example_lib
     \<lparr>Errors = [], Message = ''Not Found'',
      RequestURL = URL_of ''https://api.github.com/search/repositories?page=1&per_page=30&q=cli'',
      StatusCode = 404\<rparr> = Inr m) \<and>
   error_Error example_lib (handleHTTPError example_lib
     \<lparr>resp_Status = ''422 Unprocessable Entity'', resp_StatusCode = 422,
      resp_ContentType = ''text/html'', resp_Body = Inr ''<html>'',
      resp_Request_URL = URL_of ''https://api.github.com/search/repositories?page=1&per_page=30&q=cli''\<rparr>) =
     Inl IndexOutOfRange \<and>
   error_Error example_lib (handleHTTPError example_lib
     \<lparr>resp_Status = ''422 Unprocessable Entity'', resp_StatusCode = 422,
      resp_ContentType = ''application/json; charset=utf-8'', resp_Body = Inr body_no_errors,
      resp_Request_URL = URL_of ''https://api.github.com/search/repositories?page=1&per_page=30&q=cli''\<rparr>) =
     Inl IndexOutOfRange"
proof -
  let ?u = "URL_of ''https://api.github.com/search/repositories?page=1&per_page=30&q=cli''"
  let ?e0 = "\<lparr>Errors = [], Message = ''Validation Failed'', RequestURL = ?u, StatusCode = 422\<rparr>"
  let ?e1 = "\<lparr>Errors = [\<lparr>Code = [], Field = [], Message = ''bad qualifier'', Resource = []\<rparr>],
              Message = ''Validation Failed'', RequestURL = ?u, StatusCode = 422\<rparr>"
  let ?e2 = "\<lparr>Errors = [], Message = ''Not Found'', RequestURL = ?u, StatusCode = 404\<rparr>"
  let ?r1 = "\<lparr>resp_Status = ''422 Unprocessable Entity'', resp_StatusCode = 422,
              resp_ContentType = ''text/html'', resp_Body = Inr ''<html>'', resp_Request_URL = ?u\<rparr>"
  let ?r2 = "\<lparr>resp_Status = ''422 Unprocessable Entity'', resp_StatusCode = 422,
              resp_ContentType = ''application/json; charset=utf-8'',
              resp_Body = Inr body_no_errors, resp_Request_URL = ?u\<rparr>"
  have a: "httpError_Error example_lib ?e0 = Inl IndexOutOfRange"
    using Error_422_needs_Errors [of ?e0 example_lib] by simp
  have q: "TrimSpace example_lib (URL_Query_Get example_lib ?u ''q'') = ''cli''"
    by (simp add: example_lib_def example_Query_Get_def example_TrimSpace_def is_space_def)
  have p: "strconv_Quote (QuoteHigh example_lib) ''cli'' = dquote # ''cli'' @ [dquote]"
    by (simp add: strconv_Quote_def is_ascii_def quote_ascii_def dquote_def backslash_def)
  have b: "httpError_Error example_lib ?e1 =
           Inr (''Invalid search query '' @ dquote # ''cli'' @ [dquote] @
                [CHR ''.'', CHR 0x0A] @ ''bad qualifier'')"
    using Error_422_needs_Errors [of ?e1 example_lib] by (simp add: q p)
  have c: "\<exists>m. httpError_Error example_lib ?e2 = Inr m"
    using Error_422_needs_Errors [of ?e2 example_lib] by simp
  have "\<not> MatchString jsonTypeRE (resp_ContentType ?r1)"
    by (simp add: MatchString_def jsonTypeRE_def)
  then have d: "error_Error example_lib (handleHTTPError example_lib ?r1) = Inl IndexOutOfRange"
    using Error_422_needs_Errors [of _ example_lib ?r1] by simp
  have "MatchString jsonTypeRE (resp_ContentType ?r2)"
    by (simp add: MatchString_def jsonTypeRE_def)
  then have "handleHTTPError example_lib ?r2 = httpErr ?e0"
    by (simp add: handleHTTPError_def example_lib_def example_Unmarshal_httpError_def
        body_no_errors_def body_validation_failed_def js_def)
  then have e: "error_Error example_lib (handleHTTPError example_lib ?r2) = Inl IndexOutOfRange"
    using Error_422_needs_Errors [of _ example_lib ?r2 ?e0] by simp
  from a b c d e show ?thesis by blast
qed

section \<open>Results about Search\<close>

lemma Values_Set_overwrite: "Values_Set k v (Values_Set k v' m) = Values_Set k v m"
  by (induction m) auto

lemma Values_Set_commute:
  "k \<noteq> k' \<Longrightarrow> Values_Set k v (Values_Set k' v' m) = Values_Set k' v' (Values_Set k v m)"
  by (induction m) auto

lemma same_base_start: "same_base L query (Search_queryString L query)"
  by (simp add: same_base_def)

lemma same_base_page:
  assumes "same_base L query qs"
  shows "Values_Set ''per_page'' p (Values_Set ''page'' g qs) =
         Values_Set ''per_page'' p (Values_Set ''page'' g (Search_queryString L query))"
  using assms by (simp add: same_base_def)

lemma same_base_step:
  assumes "same_base L query qs"
  shows "same_base L query (Values_Set ''per_page'' p (Values_Set ''page'' g qs))"
proof -
  have ne: "''page'' \<noteq> ''per_page''" by simp
  have "Values_Set ''per_page'' p' (Values_Set ''page'' g' (Values_Set ''per_page'' p (Values_Set ''page'' g qs))) =
        Values_Set ''per_page'' p' (Values_Set ''page'' g' qs)" for p' g'
    by (simp add: Values_Set_commute [OF ne] Values_Set_overwrite)
  with assms show ?thesis by (simp add: same_base_def)
qed

lemma Itoa_100: "Itoa 100 = ''100''"
  by (simp add: Itoa_def)

lemma per_page_choice:
  "(if limit - i * 100 > 100 then Values_Set ''per_page'' ''100'' qs
    else if limit - i * 100 \<le> 0 then Values_Set ''per_page'' (Itoa limit) qs
    else Values_Set ''per_page'' (Itoa (limit - i * 100)) qs) =
   Values_Set ''per_page'' (Itoa (per_page_spec limit i)) qs"
  by (simp add: per_page_spec_def Let_def Itoa_100)


lemma Search_page_values:
  assumes "same_base L query (queryString st)"
  shows "(let qs = Values_Set ''page'' (Itoa i) (queryString st);
              remaining = Limit query - (i * 100)
          in (if remaining > 100 then Values_Set ''per_page'' ''100'' qs
              else if remaining \<le> 0 then Values_Set ''per_page'' (Itoa (Limit query)) qs
              else Values_Set ''per_page'' (Itoa remaining) qs)) = page_values L query i"
  unfolding Let_def per_page_choice page_values_def
  by (rule same_base_page [OF assms])

lemma same_base_page_values: "same_base L query (page_values L query i)"
  unfolding page_values_def by (rule same_base_step [OF same_base_start])

lemma Search_page_eq:
  assumes "same_base L query (queryString st)"
  shows "Search_page L Do (api_path host query) (Limit query) i st =
     (let st1 = st\<lparr>queryString := page_values L query i\<rparr>
      in case NewRequestError L (page_url L host query i) of
           Some err \<Rightarrow> (Some err, st1)
         | None \<Rightarrow>
             (let (outcome, s) = Do (client st) (page_request L host query i);
                  st2 = st1\<lparr>client := s, sent := sent st @ [page_request L host query i]\<rparr>
              in case outcome of
                   Inl err \<Rightarrow> (Some err, st2)
                 | Inr resp \<Rightarrow>
                     if \<not> success resp then (Some (handleHTTPError L resp), st2)
                     else (case resp_Body resp of
                             Inl err \<Rightarrow> (Some err, st2)
                           | Inr b \<Rightarrow>
                               (case Unmarshal_Result L b of
                                  Inl err \<Rightarrow> (Some err, st2)
                                | Inr pageResult \<Rightarrow>
                                    (None, st2\<lparr>result := merge_page (result st) pageResult\<rparr>)))))"
proof -
  note v = Search_page_values [OF assms, of i, unfolded Let_def]
  show ?thesis
    unfolding Search_page_def Let_def v page_url_def [symmetric] page_request_def [symmetric]
    by (simp add: merge_page_def split: option.splits prod.splits sum.splits)
qed

lemma Search_page_same_base:
  assumes "same_base L query (queryString st)"
  shows "same_base L query (queryString (snd (Search_page L Do (api_path host query) (Limit query) i st)))"
  unfolding Search_page_eq [OF assms]
  by (simp add: Let_def same_base_page_values split: option.splits prod.splits sum.splits)

lemma Search_page_success:
  assumes "same_base L query (queryString st)"
    and "NewRequestError L (page_url L host query i) = None"
    and "Do (client st) (page_request L host query i) = (outcome, s)"
    and "page_of L outcome = Some p"
  shows "Search_page L Do (api_path host query) (Limit query) i st =
         (None, st\<lparr>queryString := page_values L query i, client := s,
                    sent := sent st @ [page_request L host query i],
                    result := merge_page (result st) p\<rparr>)"
  unfolding Search_page_eq [OF assms(1)]
  using assms(2-4)
  by (auto simp add: Let_def page_of_def split: sum.splits if_splits)

lemma Search_page_not_2xx:
  assumes "same_base L query (queryString st)"
    and "NewRequestError L (page_url L host query i) = None"
    and "Do (client st) (page_request L host query i) = (Inr resp, s)"
    and "\<not> success resp"
  shows "Search_page L Do (api_path host query) (Limit query) i st =
         (Some (handleHTTPError L resp),
          st\<lparr>queryString := page_values L query i, client := s,
             sent := sent st @ [page_request L host query i]\<rparr>)"
  unfolding Search_page_eq [OF assms(1)]
  using assms(2-4)
  by (simp add: Let_def)

lemma Search_page_sent:
  assumes "same_base L query (queryString st)"
    and "Search_page L Do (api_path host query) (Limit query) i st = (e, st1)"
  shows "(e = None \<longrightarrow> sent st1 = sent st @ [page_request L host query i]) \<and>
         (sent st1 = sent st \<or> sent st1 = sent st @ [page_request L host query i])"
  using assms(2) unfolding Search_page_eq [OF assms(1)]
  by (auto simp add: Let_def split: option.splits prod.splits sum.splits if_splits)


declare Search_pages.simps [simp del]

lemma Search_pages_done:
  "\<not> i \<le> pages \<Longrightarrow> Search_pages L Do path limit pages i st = (None, st)"
  by (subst Search_pages.simps) simp

lemma Search_pages_next:
  "i \<le> pages \<Longrightarrow> Search_page L Do path limit i st = (None, st1) \<Longrightarrow>
   Search_pages L Do path limit pages i st = Search_pages L Do path limit pages (i + 1) st1"
  by (subst Search_pages.simps) simp

lemma Search_pages_return:
  "i \<le> pages \<Longrightarrow> Search_page L Do path limit i st = (Some e, st1) \<Longrightarrow>
   Search_pages L Do path limit pages i st = (Some e, st1)"
  by (subst Search_pages.simps) simp

lemma Search_pages_sent:
  "same_base L query (queryString st) \<Longrightarrow> path = api_path host query \<Longrightarrow> limit = Limit query \<Longrightarrow>
   i \<le> pages + 1 \<Longrightarrow> Search_pages L Do path limit pages i st = (err, st') \<Longrightarrow>
   \<exists>n. i - 1 \<le> n \<and> n \<le> pages \<and>
       sent st' = sent st @ map (page_request L host query) [i..n] \<and>
       (err = None \<longrightarrow> n = pages)"
proof (induction L Do path limit pages i st arbitrary: err st' rule: Search_pages.induct)
  case (1 L Do path limit pages i st)
  show ?case
  proof (cases "i \<le> pages")
    case False
    with "1.prems"(4) have i: "i = pages + 1" by simp
    from False "1.prems"(5) have "err = None" "st' = st"
      by (simp_all add: Search_pages_done)
    with i have "i - 1 \<le> pages \<and> pages \<le> pages \<and>
        sent st' = sent st @ map (page_request L host query) [i..pages] \<and>
        (err = None \<longrightarrow> pages = pages)"
      by simp
    then show ?thesis by blast
  next
    case True
    obtain e st1 where sp: "Search_page L Do path limit i st = (e, st1)"
      by (cases "Search_page L Do path limit i st")
    from "1.prems"(1) have sb: "same_base L query (queryString st1)"
      using Search_page_same_base [of L query st Do host i] sp "1.prems"(2,3) by simp
    from "1.prems"(1) have snt:
      "e = None \<longrightarrow> sent st1 = sent st @ [page_request L host query i]"
      "sent st1 = sent st \<or> sent st1 = sent st @ [page_request L host query i]"
      using Search_page_sent [of L query st Do host i e st1] sp "1.prems"(2,3) by simp_all
    show ?thesis
    proof (cases e)
      case None
      with sp True "1.prems"(5)
      have run: "Search_pages L Do path limit pages (i + 1) st1 = (err, st')"
        by (simp add: Search_pages_next)
      from True have le: "i + 1 \<le> pages + 1" by simp
      from "1.IH" [OF True sp [symmetric] None sb "1.prems"(2,3) le run]
      obtain n where n: "i \<le> n" "n \<le> pages"
        "sent st' = sent st1 @ map (page_request L host query) [i + 1..n]"
        "err = None \<longrightarrow> n = pages"
        by auto
      from n(1) have "[i..n] = i # [i + 1..n]" by (rule upto_rec1)
      with n(3) snt(1) None
      have "sent st' = sent st @ map (page_request L host query) [i..n]" by simp
      with n have "i - 1 \<le> n \<and> n \<le> pages \<and>
          sent st' = sent st @ map (page_request L host query) [i..n] \<and>
          (err = None \<longrightarrow> n = pages)"
        by simp
      then show ?thesis by blast
    next
      case (Some e')
      with sp True "1.prems"(5) have r: "err = Some e'" "st' = st1"
        by (simp_all add: Search_pages_return)
      from snt(2) show ?thesis
      proof
        assume "sent st1 = sent st"
        with r True have "i - 1 \<le> i - 1 \<and> i - 1 \<le> pages \<and>
            sent st' = sent st @ map (page_request L host query) [i..i - 1] \<and>
            (err = None \<longrightarrow> i - 1 = pages)"
          by simp
        then show ?thesis by blast
      next
        assume "sent st1 = sent st @ [page_request L host query i]"
        with r True have "i - 1 \<le> i \<and> i \<le> pages \<and>
            sent st' = sent st @ map (page_request L host query) [i..i] \<and>
            (err = None \<longrightarrow> i = pages)"
          by simp
        then show ?thesis by blast
      qed
    qed
  qed
qed

lemma Search_pages_forward:
  "same_base L query (queryString st) \<Longrightarrow> path = api_path host query \<Longrightarrow> limit = Limit query \<Longrightarrow>
   i \<le> n + 1 \<Longrightarrow> n \<le> pages \<Longrightarrow>
   (\<forall>k. i \<le> k \<and> k \<le> n \<longrightarrow> NewRequestError L (page_url L host query k) = None) \<Longrightarrow>
   map (page_of L) (replay Do (client st) (map (page_request L host query) [i..n])) = map Some ps \<Longrightarrow>
   \<exists>st1. Search_pages L Do path limit pages i st = Search_pages L Do path limit pages (n + 1) st1 \<and>
         same_base L query (queryString st1) \<and>
         sent st1 = sent st @ map (page_request L host query) [i..n] \<and>
         client st1 = replay_state Do (client st) (map (page_request L host query) [i..n]) \<and>
         result st1 = foldl merge_page (result st) ps"
proof (induction L Do path limit pages i st arbitrary: ps rule: Search_pages.induct)
  case (1 L Do path limit pages i st)
  show ?case
  proof (cases "i \<le> n")
    case False
    with "1.prems"(4) have i: "i = n + 1" by simp
    then have "[i..n] = []" by simp
    with "1.prems"(7) have "ps = []" by simp
    with i \<open>[i..n] = []\<close> "1.prems"(1) show ?thesis by auto
  next
    case True
    with "1.prems"(5) have ip: "i \<le> pages" by simp
    let ?req = "page_request L host query i"
    from True have up: "[i..n] = i # [i + 1..n]" by (rule upto_rec1)
    obtain outcome s where d: "Do (client st) ?req = (outcome, s)"
      by (cases "Do (client st) ?req")
    with "1.prems"(7) up obtain p ps' where ps: "ps = p # ps'" "page_of L outcome = Some p"
      "map (page_of L) (replay Do s (map (page_request L host query) [i + 1..n])) = map Some ps'"
      by (cases ps) auto
    from "1.prems"(6) True have nre: "NewRequestError L (page_url L host query i) = None"
      by simp
    let ?st2 = "st\<lparr>queryString := page_values L query i, client := s,
                   sent := sent st @ [?req], result := merge_page (result st) p\<rparr>"
    have sp: "Search_page L Do path limit i st = (None, ?st2)"
      using Search_page_success [of L query st host i Do outcome s p]
        "1.prems"(1,2,3) nre d ps(2) by simp
    have sb: "same_base L query (queryString ?st2)"
      by (simp add: same_base_page_values)
    from True have le: "i + 1 \<le> n + 1" by simp
    from "1.prems"(6) have nre': "\<forall>k. i + 1 \<le> k \<and> k \<le> n \<longrightarrow>
        NewRequestError L (page_url L host query k) = None"
      by simp
    from ps(3) have rp: "map (page_of L)
        (replay Do (client ?st2) (map (page_request L host query) [i + 1..n])) = map Some ps'"
      by simp
    from "1.IH" [OF ip sp [symmetric] refl sb "1.prems"(2,3) le "1.prems"(5) nre' rp]
    obtain st1 where st1:
      "Search_pages L Do path limit pages (i + 1) ?st2 = Search_pages L Do path limit pages (n + 1) st1"
      "same_base L query (queryString st1)"
      "sent st1 = sent ?st2 @ map (page_request L host query) [i + 1..n]"
      "client st1 = replay_state Do (client ?st2) (map (page_request L host query) [i + 1..n])"
      "result st1 = foldl merge_page (result ?st2) ps'"
      by blast
    have "Search_pages L Do path limit pages i st = Search_pages L Do path limit pages (n + 1) st1"
      using Search_pages_next [OF ip sp] st1(1) by simp
    moreover have "sent st1 = sent st @ map (page_request L host query) [i..n]"
      using st1(3) up by simp
    moreover have "client st1 = replay_state Do (client st) (map (page_request L host query) [i..n])"
      using st1(4) up d by simp
    moreover have "result st1 = foldl merge_page (result st) ps"
      using st1(5) ps(1) by simp
    ultimately show ?thesis using st1(2) by blast
  qed
qed


lemma pages_of_int [code]: "pages_of limit = - ((- limit) div 100)"
  unfolding pages_of_def
  by (metis ceiling_divide_eq_div of_int_numeral)

lemma pages_of_bounds: "1 \<le> limit \<Longrightarrow> 1 \<le> pages_of limit"
  by (simp add: pages_of_def)

lemma Search_eq:
  "Search L Do host query s =
     (case Search_pages L Do (api_path host query) (Limit query) (pages_of (Limit query)) 1
             \<lparr>result = \<lparr>IncompleteResults = False, Items = [], TotalCount = 0\<rparr>,
              queryString = Search_queryString L query, client = s, sent = []\<rparr> of
        (err, st) \<Rightarrow> (err, st, query\<lparr>Keywords := quoteKeywords L (Keywords query)\<rparr>))"
  by (simp add: Search_def Let_def api_path_def)

lemma foldl_merge_page:
  "foldl merge_page r ps =
     (if ps = [] then r
      else \<lparr>IncompleteResults = IncompleteResults (last ps),
            Items = Items r @ concat (map Items ps),
            TotalCount = TotalCount (last ps)\<rparr>)"
  by (induction ps arbitrary: r) (simp_all add: merge_page_def)

lemma foldl_merge_page_aggregate:
  "foldl merge_page \<lparr>IncompleteResults = False, Items = [], TotalCount = 0\<rparr> ps = aggregate ps"
  by (simp add: foldl_merge_page aggregate_def)

lemma map_of_Values_Set_same: "map_of (Values_Set k v m) k = Some [v]"
  by (induction m) auto

lemma Search_all_pages:
  fixes L :: "'item golib" and Do :: "'s client_Do"
  assumes nre: "\<forall>k. 1 \<le> k \<and> k \<le> pages_of (Limit query) \<longrightarrow>
                  NewRequestError L (page_url L host query k) = None"
    and ok: "map (page_of L) (replay Do s
               (map (page_request L host query) [1..pages_of (Limit query)])) = map Some ps"
  shows "\<exists>st. Search L Do host query s = (None, st, query\<lparr>Keywords := quoteKeywords L (Keywords query)\<rparr>) \<and>
              sent st = map (page_request L host query) [1..pages_of (Limit query)] \<and>
              result st = aggregate ps"
proof -
  let ?pages = "pages_of (Limit query)"
  let ?st0 = "\<lparr>result = \<lparr>IncompleteResults = False, Items = [], TotalCount = 0\<rparr>,
              queryString = Search_queryString L query, client = s, sent = []\<rparr>
              :: ('item, 's) search_run"
  let ?loop = "Search_pages L Do (api_path host query) (Limit query) ?pages"
  have "\<exists>st. ?loop 1 ?st0 = (None, st) \<and>
             sent st = map (page_request L host query) [1..?pages] \<and> result st = aggregate ps"
  proof (cases "1 \<le> ?pages")
    case False
    then have "[1..?pages] = []" by simp
    with ok have "ps = []" by simp
    with False \<open>[1..?pages] = []\<close> show ?thesis
      by (simp add: Search_pages_done aggregate_def)
  next
    case True
    have sb: "same_base L query (queryString ?st0)"
      by (simp add: same_base_start)
    from True have le: "1 \<le> ?pages + 1" by simp
    from ok have ok': "map (page_of L) (replay Do (client ?st0)
        (map (page_request L host query) [1..?pages])) = map Some ps"
      by simp
    from Search_pages_forward [OF sb refl refl le order_refl nre ok']
    obtain st1 :: "('item, 's) search_run" where "?loop 1 ?st0 = ?loop (?pages + 1) st1 \<and>
      same_base L query (queryString st1) \<and>
      sent st1 = sent ?st0 @ map (page_request L host query) [1..?pages] \<and>
      client st1 = replay_state Do (client ?st0) (map (page_request L host query) [1..?pages]) \<and>
      result st1 = foldl merge_page (result ?st0) ps" ..
    then have st1: "?loop 1 ?st0 = ?loop (?pages + 1) st1"
      "sent st1 = sent ?st0 @ map (page_request L host query) [1..?pages]"
      "result st1 = foldl merge_page (result ?st0) ps"
      by simp_all
    have "?loop (?pages + 1) st1 = (None, st1)"
      by (simp add: Search_pages_done)
    with st1 show ?thesis
      by (simp add: foldl_merge_page_aggregate)
  qed
  then show ?thesis
    by (auto simp add: Search_eq)
qed

lemma Search_sent_prefix:
  fixes L :: "'item golib" and Do :: "'s client_Do"
  assumes "0 \<le> pages_of (Limit query)"
    and "Search L Do host query s = (err, st, query')"
  shows "\<exists>n. 0 \<le> n \<and> n \<le> pages_of (Limit query) \<and>
             sent st = map (page_request L host query) [1..n] \<and>
             (err = None \<longrightarrow> n = pages_of (Limit query))"
proof -
  let ?pages = "pages_of (Limit query)"
  let ?st0 = "\<lparr>result = \<lparr>IncompleteResults = False, Items = [], TotalCount = 0\<rparr>,
              queryString = Search_queryString L query, client = s, sent = []\<rparr>
              :: ('item, 's) search_run"
  from assms(2) have run:
    "Search_pages L Do (api_path host query) (Limit query) ?pages 1 ?st0 = (err, st)"
    by (auto simp add: Search_eq split: prod.splits)
  have sb: "same_base L query (queryString ?st0)"
    by (simp add: same_base_start)
  from assms(1) have le: "1 \<le> ?pages + 1" by simp
  from Search_pages_sent [OF sb refl refl le run]
  show ?thesis by simp
qed

lemma Search_not_2xx:
  fixes L :: "'item golib" and Do :: "'s client_Do"
  assumes j: "1 \<le> j" "j \<le> pages_of (Limit query)"
    and nre: "\<forall>k. 1 \<le> k \<and> k \<le> j \<longrightarrow> NewRequestError L (page_url L host query k) = None"
    and ok: "map (page_of L) (replay Do s (map (page_request L host query) [1..j - 1])) = map Some ps"
    and d: "Do (replay_state Do s (map (page_request L host query) [1..j - 1]))
              (page_request L host query j) = (Inr resp, s')"
    and bad: "\<not> success resp"
  shows "\<exists>st. Search L Do host query s =
               (Some (handleHTTPError L resp), st, query\<lparr>Keywords := quoteKeywords L (Keywords query)\<rparr>) \<and>
              sent st = map (page_request L host query) [1..j] \<and>
              result st = aggregate ps"
proof -
  let ?pages = "pages_of (Limit query)"
  let ?st0 = "\<lparr>result = \<lparr>IncompleteResults = False, Items = [], TotalCount = 0\<rparr>,
              queryString = Search_queryString L query, client = s, sent = []\<rparr>
              :: ('item, 's) search_run"
  let ?loop = "Search_pages L Do (api_path host query) (Limit query) ?pages"
  have sb: "same_base L query (queryString ?st0)"
    by (simp add: same_base_start)
  from j have le: "1 \<le> (j - 1) + 1" "j - 1 \<le> ?pages" by simp_all
  from nre have nre': "\<forall>k. 1 \<le> k \<and> k \<le> j - 1 \<longrightarrow>
      NewRequestError L (page_url L host query k) = None"
    by simp
  from ok have ok': "map (page_of L) (replay Do (client ?st0)
      (map (page_request L host query) [1..j - 1])) = map Some ps"
    by simp
  from Search_pages_forward [OF sb refl refl le nre' ok']
  obtain st1 :: "('item, 's) search_run" where "?loop 1 ?st0 = ?loop (j - 1 + 1) st1 \<and>
    same_base L query (queryString st1) \<and>
    sent st1 = sent ?st0 @ map (page_request L host query) [1..j - 1] \<and>
    client st1 = replay_state Do (client ?st0) (map (page_request L host query) [1..j - 1]) \<and>
    result st1 = foldl merge_page (result ?st0) ps" ..
  then have st1: "?loop 1 ?st0 = ?loop j st1"
    "same_base L query (queryString st1)"
    "sent st1 = map (page_request L host query) [1..j - 1]"
    "client st1 = replay_state Do s (map (page_request L host query) [1..j - 1])"
    "result st1 = aggregate ps"
    by (simp_all add: foldl_merge_page_aggregate)
  from nre j have nrej: "NewRequestError L (page_url L host query j) = None" by simp
  let ?st2 = "st1\<lparr>queryString := page_values L query j, client := s',
                 sent := sent st1 @ [page_request L host query j]\<rparr>"
  have sp: "Search_page L Do (api_path host query) (Limit query) j st1 =
            (Some (handleHTTPError L resp), ?st2)"
    using Search_page_not_2xx [of L query st1 host j Do resp s'] st1(2,4) nrej d bad by simp
  from Search_pages_return [OF j(2) sp] st1(1)
  have "?loop 1 ?st0 = (Some (handleHTTPError L resp), ?st2)" by simp
  moreover from j(1) have "[1..j] = [1..j - 1] @ [j]" by (rule upto_rec2)
  with st1(3) have "sent ?st2 = map (page_request L host query) [1..j]" by simp
  moreover from st1(5) have "result ?st2 = aggregate ps" by simp
  ultimately show ?thesis
    by (auto simp add: Search_eq)
qed

section \<open>Pages and their aggregate\<close>

lemma length_replay: "length (replay Do s reqs) = length reqs"
  by (induction reqs arbitrary: s) (auto split: prod.splits)

lemma all_pages_decoded:
  assumes "list_all (\<lambda>outcome. page_of L outcome \<noteq> None) outs"
  shows "map (page_of L) outs = map Some (map (\<lambda>outcome. the (page_of L outcome)) outs)"
  using assms by (induction outs) auto

text \<open>
  C1. For a query with a limit from 1 to 1000, the number of pages is the ceiling of
  \<^verbatim>\<open>limit / 100\<close>, and it is at least 1. The requests that \<^verbatim>\<open>Search\<close> sends are the requests
  for the pages 1, 2, ... in this order, up to some page \<open>n\<close>; \<open>n\<close> is the number of pages
  when \<^verbatim>\<open>Search\<close> returns no error, and it does so when every page gets a response that it
  can decode. The request for page \<open>i\<close> is a GET whose parameters hold \<^verbatim>\<open>page = i\<close> and
  \<^verbatim>\<open>per_page\<close> as follows: with \<^verbatim>\<open>remaining = limit - i*100\<close>, it is 100 if
  \<^verbatim>\<open>remaining > 100\<close>, the limit if \<^verbatim>\<open>remaining <= 0\<close>, and \<^verbatim>\<open>remaining\<close> otherwise.
\<close>

theorem Search_requests_pages:
  fixes L :: "'item golib" and Do :: "'s client_Do"
  assumes "1 \<le> Limit query" and "Limit query \<le> 1000"
  shows
    "(let pages = \<lceil>real_of_int (Limit query) / 100\<rceil> in
      1 \<le> pages \<and>
      (\<forall>err st query'. Search L Do host query s = (err, st, query') \<longrightarrow>
         (\<exists>n. 0 \<le> n \<and> n \<le> pages \<and>
              sent st = map (page_request L host query) [1..n] \<and>
              (err = None \<longrightarrow> n = pages))) \<and>
      ((\<forall>k. 1 \<le> k \<and> k \<le> pages \<longrightarrow> NewRequestError L (page_url L host query k) = None) \<and>
       list_all (\<lambda>outcome. page_of L outcome \<noteq> None)
         (replay Do s (map (page_request L host query) [1..pages])) \<longrightarrow>
         (\<exists>st query'. Search L Do host query s = (None, st, query') \<and>
            sent st = map (page_request L host query) [1..pages])) \<and>
      (\<forall>i. Method (page_request L host query i) = ''GET'' \<and>
           ReqURL (page_request L host query i) =
             URL_of (''https://api.'' @ host @ ''/search/'' @ Kind query @ ''?'' @
                     Values_Encode (page_values L query i)) \<and>
           map_of (page_values L query i) ''page'' = Some [Itoa i] \<and>
           map_of (page_values L query i) ''per_page'' =
             Some [Itoa (per_page_spec (Limit query) i)] \<and>
           per_page_spec (Limit query) i =
             (if Limit query - i * 100 > 100 then 100
              else if Limit query - i * 100 \<le> 0 then Limit query
              else Limit query - i * 100)))"
proof -
  let ?pages = "\<lceil>real_of_int (Limit query) / 100\<rceil>"
  have p: "pages_of (Limit query) = ?pages" by (simp add: pages_of_def)
  from assms(1) have one: "1 \<le> ?pages" using pages_of_bounds [of "Limit query"] p by simp
  have a: "\<exists>n. 0 \<le> n \<and> n \<le> ?pages \<and> sent st = map (page_request L host query) [1..n] \<and>
               (err = None \<longrightarrow> n = ?pages)"
    if "Search L Do host query s = (err, st, query')" for err st query'
    using Search_sent_prefix [of query L Do host s err st query'] that one p by simp
  have b: "\<exists>st query'. Search L Do host query s = (None, st, query') \<and>
             sent st = map (page_request L host query) [1..?pages]"
    if "(\<forall>k. 1 \<le> k \<and> k \<le> ?pages \<longrightarrow> NewRequestError L (page_url L host query k) = None) \<and>
        list_all (\<lambda>outcome. page_of L outcome \<noteq> None)
          (replay Do s (map (page_request L host query) [1..?pages]))"
  proof -
    from that have nre: "\<forall>k. 1 \<le> k \<and> k \<le> pages_of (Limit query) \<longrightarrow>
        NewRequestError L (page_url L host query k) = None"
      by (simp add: p)
    from that have "list_all (\<lambda>outcome. page_of L outcome \<noteq> None)
        (replay Do s (map (page_request L host query) [1..pages_of (Limit query)]))"
      by (simp add: p)
    from Search_all_pages [OF nre all_pages_decoded [OF this]]
    show ?thesis by (auto simp add: p)
  qed
  have c: "Method (page_request L host query i) = ''GET'' \<and>
           ReqURL (page_request L host query i) =
             URL_of (''https://api.'' @ host @ ''/search/'' @ Kind query @ ''?'' @
                     Values_Encode (page_values L query i)) \<and>
           map_of (page_values L query i) ''page'' = Some [Itoa i] \<and>
           map_of (page_values L query i) ''per_page'' =
             Some [Itoa (per_page_spec (Limit query) i)] \<and>
           per_page_spec (Limit query) i =
             (if Limit query - i * 100 > 100 then 100
              else if Limit query - i * 100 \<le> 0 then Limit query
              else Limit query - i * 100)" for i
  proof -
    have ne: "''page'' \<noteq> ''per_page''" by simp
    have "map_of (page_values L query i) ''page'' = Some [Itoa i]"
      unfolding page_values_def Values_Set_commute [OF ne [symmetric]]
      by (rule map_of_Values_Set_same)
    moreover have "map_of (page_values L query i) ''per_page'' =
        Some [Itoa (per_page_spec (Limit query) i)]"
      unfolding page_values_def by (rule map_of_Values_Set_same)
    ultimately show ?thesis
      by (simp add: page_request_def page_url_def api_path_def per_page_spec_def Let_def)
  qed
  from one a b c show ?thesis
    unfolding Let_def by blast
qed

theorem Search_requests_pages_witness:
  "1 \<le> Limit (example_query [''cli''] 250) \<and> Limit (example_query [''cli''] 250) \<le> 1000 \<and>
   (\<exists>st query'.
      Search example_lib scripted ''github.com'' (example_query [''cli''] 250)
        [ok_json ''{}'', ok_json ''{}'', ok_json ''{}''] = (None, st, query') \<and>
      sent st = map (page_request example_lib ''github.com'' (example_query [''cli''] 250)) [1..3]) \<and>
   map_of (page_values example_lib (example_query [''cli''] 250) 2) ''per_page'' =
     Some [Itoa (per_page_spec 250 2)]"
proof -
  let ?q = "example_query [''cli''] 250"
  let ?s = "[ok_json ''{}'', ok_json ''{}'', ok_json ''{}'']"
  have h: "1 \<le> Limit ?q" "Limit ?q \<le> 1000"
    by (simp_all add: example_query_def)
  have l: "Limit ?q = 250"
    by (simp add: example_query_def)
  have pg: "\<lceil>real_of_int (Limit ?q) / 100\<rceil> = 3"
    by (simp add: example_query_def)
  note t = Search_requests_pages [OF h, where L = example_lib and host = "''github.com''"
      and Do = scripted and s = ?s, unfolded Let_def pg]
  have nre: "\<forall>k. 1 \<le> k \<and> k \<le> 3 \<longrightarrow>
      NewRequestError example_lib (page_url example_lib ''github.com'' ?q k) = None"
    by (simp add: example_lib_def)
  have ok: "list_all (\<lambda>outcome. page_of example_lib outcome \<noteq> None)
      (replay scripted ?s (map (page_request example_lib ''github.com'' ?q) [1..3]))"
    by code_simp
  from t nre ok have a: "\<exists>st query'.
      Search example_lib scripted ''github.com'' ?q ?s = (None, st, query') \<and>
      sent st = map (page_request example_lib ''github.com'' ?q) [1..3]"
    by blast
  from t have b: "map_of (page_values example_lib ?q 2) ''per_page'' =
      Some [Itoa (per_page_spec (Limit ?q) 2)]"
    by blast
  from h a b show ?thesis by (simp add: l)
qed

text \<open>
  C2 on the code. With every page answered, a limit of 250 makes \<^verbatim>\<open>Search\<close> send three
  requests, with \<^verbatim>\<open>per_page=100\<close> on page 1, \<^verbatim>\<open>per_page=50\<close> on page 2 and \<^verbatim>\<open>per_page=250\<close> on
  page 3. A limit of 100 gives one request with \<^verbatim>\<open>per_page=100\<close>, a limit of 30 one request
  with \<^verbatim>\<open>per_page=30\<close>.
\<close>

theorem Search_limit_250_100_30:
  "map ReqURL (sent (fst (snd (Search example_lib scripted ''github.com''
      (example_query [''cli''] 250) [ok_json ''{}'', ok_json ''{}'', ok_json ''{}''])))) =
     [URL_of ''https://api.github.com/search/repositories?page=1&per_page=100&q=cli'',
      URL_of ''https://api.github.com/search/repositories?page=2&per_page=50&q=cli'',
      URL_of ''https://api.github.com/search/repositories?page=3&per_page=250&q=cli''] \<and>
   map ReqURL (sent (fst (snd (Search example_lib scripted ''github.com''
      (example_query [''cli''] 100) [ok_json ''{}'', ok_json ''{}'', ok_json ''{}''])))) =
     [URL_of ''https://api.github.com/search/repositories?page=1&per_page=100&q=cli''] \<and>
   map ReqURL (sent (fst (snd (Search example_lib scripted ''github.com''
      (example_query [''cli''] 30) [ok_json ''{}'', ok_json ''{}'', ok_json ''{}''])))) =
     [URL_of ''https://api.github.com/search/repositories?page=1&per_page=30&q=cli'']"
  by code_simp

text \<open>
  C3. When every page gets a response that \<^verbatim>\<open>Search\<close> can decode, \<^verbatim>\<open>Search\<close> returns no
  error, and its result holds the items of all the pages, concatenated in the order of
  the requests, with the \<^verbatim>\<open>incomplete_results\<close> and the \<^verbatim>\<open>total_count\<close> of the last page.
\<close>

theorem Search_aggregates_pages:
  fixes L :: "'item golib" and Do :: "'s client_Do"
  assumes "\<forall>k. 1 \<le> k \<and> k \<le> pages_of (Limit query) \<longrightarrow>
             NewRequestError L (page_url L host query k) = None"
    and "map (page_of L) (replay Do s
           (map (page_request L host query) [1..pages_of (Limit query)])) = map Some ps"
  shows "\<exists>st query'.
           Search L Do host query s = (None, st, query') \<and>
           sent st = map (page_request L host query) [1..pages_of (Limit query)] \<and>
           Items (result st) = concat (map Items ps) \<and>
           (ps \<noteq> [] \<longrightarrow>
              IncompleteResults (result st) = IncompleteResults (last ps) \<and>
              TotalCount (result st) = TotalCount (last ps)) \<and>
           (1 \<le> Limit query \<longrightarrow> ps \<noteq> [])"
proof -
  from Search_all_pages [OF assms]
  obtain st :: "('item, 's) search_run" where st:
    "Search L Do host query s = (None, st, query\<lparr>Keywords := quoteKeywords L (Keywords query)\<rparr>)"
    "sent st = map (page_request L host query) [1..pages_of (Limit query)]"
    "result st = aggregate ps"
    by blast
  have "ps \<noteq> []" if "1 \<le> Limit query"
  proof -
    from that have "1 \<le> pages_of (Limit query)" by (rule pages_of_bounds)
    then have "[1..pages_of (Limit query)] \<noteq> []" by simp
    moreover have "length (map (page_of L) (replay Do s
        (map (page_request L host query) [1..pages_of (Limit query)]))) = length (map Some ps)"
      by (simp only: assms(2))
    then have "length [1..pages_of (Limit query)] = length ps"
      by (simp only: length_map length_replay)
    ultimately show ?thesis by auto
  qed
  moreover have "Items (result st) = concat (map Items ps)"
    by (simp add: st(3) aggregate_def)
  moreover have "IncompleteResults (result st) = IncompleteResults (last ps) \<and>
      TotalCount (result st) = TotalCount (last ps)" if "ps \<noteq> []"
    using that by (simp add: st(3) aggregate_def)
  ultimately show ?thesis using st(1,2) by blast
qed

theorem Search_aggregates_pages_witness:
  "map (page_of example_lib) (replay scripted [ok_json body_page_1, ok_json body_page_2]
      (map (page_request example_lib ''github.com'' (example_query [''cli''] 150))
        [1..pages_of (Limit (example_query [''cli''] 150))])) =
     map Some
       [\<lparr>IncompleteResults = False,
         Items = [''{'' @ js ''id'' @ '':1}'', ''{'' @ js ''id'' @ '':2}''], TotalCount = 500\<rparr>,
        \<lparr>IncompleteResults = True, Items = [''{'' @ js ''id'' @ '':3}''], TotalCount = 500\<rparr>] \<and>
   (\<exists>st query'.
      Search example_lib scripted ''github.com'' (example_query [''cli''] 150)
        [ok_json body_page_1, ok_json body_page_2] = (None, st, query') \<and>
      IncompleteResults (result st) = True \<and> TotalCount (result st) = 500 \<and>
      Items (result st) =
        [''{'' @ js ''id'' @ '':1}'', ''{'' @ js ''id'' @ '':2}'', ''{'' @ js ''id'' @ '':3}''])"
proof -
  let ?q = "example_query [''cli''] 150"
  let ?s = "[ok_json body_page_1, ok_json body_page_2]"
  let ?ps = "[\<lparr>IncompleteResults = False,
                Items = [''{'' @ js ''id'' @ '':1}'', ''{'' @ js ''id'' @ '':2}''], TotalCount = 500\<rparr>,
              \<lparr>IncompleteResults = True, Items = [''{'' @ js ''id'' @ '':3}''], TotalCount = 500\<rparr>]"
  have nre: "\<forall>k. 1 \<le> k \<and> k \<le> pages_of (Limit ?q) \<longrightarrow>
      NewRequestError example_lib (page_url example_lib ''github.com'' ?q k) = None"
    by (simp add: example_lib_def)
  have ok: "map (page_of example_lib) (replay scripted ?s
      (map (page_request example_lib ''github.com'' ?q) [1..pages_of (Limit ?q)])) = map Some ?ps"
    by code_simp
  from Search_aggregates_pages [OF nre ok]
  have "\<exists>st query'.
      Search example_lib scripted ''github.com'' ?q ?s = (None, st, query') \<and>
      IncompleteResults (result st) = True \<and> TotalCount (result st) = 500 \<and>
      Items (result st) =
        [''{'' @ js ''id'' @ '':1}'', ''{'' @ js ''id'' @ '':2}'', ''{'' @ js ''id'' @ '':3}'']"
    by auto
  with ok show ?thesis by blast
qed

section \<open>Responses that are not 2xx\<close>

text \<open>
  C8, as the code has it. When the response to a page is not 2xx (the pages before it
  having been decoded), \<^verbatim>\<open>Search\<close> sends no further request and returns the error that
  \<^verbatim>\<open>handleHTTPError\<close> makes of the response, with the items of the earlier pages in the
  result. That error is an \<^verbatim>\<open>httpError\<close> with the status line as its message when the
  content type is not JSON; otherwise it is the error of reading or of decoding the body,
  if there is one, and else the decoded \<^verbatim>\<open>httpError\<close>. The message of an \<^verbatim>\<open>httpError\<close>
  whose status code is not 422 is \<^verbatim>\<open>HTTP <StatusCode>: <Message> (<RequestURL>)\<close>. The message
  of one with status code 422 and a first error is \<^verbatim>\<open>Invalid search query\<close>, then the
  parameter \<^verbatim>\<open>q\<close> of the request URL, trimmed of surrounding space and quoted with \<^verbatim>\<open>%q\<close>,
  then a full stop, a line feed and the message of the first error. Any other error has
  its own message.
\<close>

theorem Search_not_2xx_error:
  fixes L :: "'item golib" and Do :: "'s client_Do"
  shows
  "(1 \<le> j \<and> j \<le> pages_of (Limit query) \<and>
    (\<forall>k. 1 \<le> k \<and> k \<le> j \<longrightarrow> NewRequestError L (page_url L host query k) = None) \<and>
    map (page_of L) (replay Do s (map (page_request L host query) [1..j - 1])) = map Some ps \<and>
    Do (replay_state Do s (map (page_request L host query) [1..j - 1]))
       (page_request L host query j) = (Inr resp, s') \<and>
    \<not> success resp \<longrightarrow>
      (\<exists>st query'.
         Search L Do host query s = (Some (handleHTTPError L resp), st, query') \<and>
         sent st = map (page_request L host query) [1..j] \<and>
         result st = aggregate ps)) \<and>
   (\<not> MatchString jsonTypeRE (resp_ContentType resp) \<longrightarrow>
      handleHTTPError L resp =
        httpErr \<lparr>Errors = [], Message = resp_Status resp, RequestURL = resp_Request_URL resp,
                 StatusCode = resp_StatusCode resp\<rparr>) \<and>
   (MatchString jsonTypeRE (resp_ContentType resp) \<longrightarrow>
      handleHTTPError L resp =
        (case resp_Body resp of
           Inl err \<Rightarrow> err
         | Inr body \<Rightarrow>
             (case Unmarshal_httpError L body
                     \<lparr>Errors = [], Message = [], RequestURL = resp_Request_URL resp,
                      StatusCode = resp_StatusCode resp\<rparr> of
                Inl err \<Rightarrow> err
              | Inr h \<Rightarrow> httpErr h))) \<and>
   (StatusCode h \<noteq> 422 \<longrightarrow>
      error_Error L (httpErr h) =
        Inr (''HTTP '' @ Itoa (StatusCode h) @ '': '' @ httpError.Message h @
             '' ('' @ URL_String L (RequestURL h) @ '')'')) \<and>
   (StatusCode h = 422 \<and> Errors h = e # es \<longrightarrow>
      error_Error L (httpErr h) =
        Inr (''Invalid search query '' @
             strconv_Quote (QuoteHigh L) (TrimSpace L (URL_Query_Get L (RequestURL h) ''q'')) @
             [CHR ''.'', CHR 0x0A] @ httpErrorItem.Message e)) \<and>
   error_Error L (errorString m) = Inr m"
proof (intro conjI impI)
  assume a: "1 \<le> j \<and> j \<le> pages_of (Limit query) \<and>
    (\<forall>k. 1 \<le> k \<and> k \<le> j \<longrightarrow> NewRequestError L (page_url L host query k) = None) \<and>
    map (page_of L) (replay Do s (map (page_request L host query) [1..j - 1])) = map Some ps \<and>
    Do (replay_state Do s (map (page_request L host query) [1..j - 1]))
       (page_request L host query j) = (Inr resp, s') \<and>
    \<not> success resp"
  then have j: "1 \<le> j" "j \<le> pages_of (Limit query)"
    and nre: "\<forall>k. 1 \<le> k \<and> k \<le> j \<longrightarrow> NewRequestError L (page_url L host query k) = None"
    and ok: "map (page_of L) (replay Do s (map (page_request L host query) [1..j - 1])) = map Some ps"
    and d: "Do (replay_state Do s (map (page_request L host query) [1..j - 1]))
              (page_request L host query j) = (Inr resp, s')"
    and bad: "\<not> success resp"
    by simp_all
  from Search_not_2xx [OF j nre ok d bad]
  show "\<exists>st query'.
         Search L Do host query s = (Some (handleHTTPError L resp), st, query') \<and>
         sent st = map (page_request L host query) [1..j] \<and>
         result st = aggregate ps"
    by blast
next
  assume "\<not> MatchString jsonTypeRE (resp_ContentType resp)"
  then show "handleHTTPError L resp =
        httpErr \<lparr>Errors = [], Message = resp_Status resp, RequestURL = resp_Request_URL resp,
                 StatusCode = resp_StatusCode resp\<rparr>"
    by (rule handleHTTPError_not_json)
next
  assume "MatchString jsonTypeRE (resp_ContentType resp)"
  then show "handleHTTPError L resp =
        (case resp_Body resp of
           Inl err \<Rightarrow> err
         | Inr body \<Rightarrow>
             (case Unmarshal_httpError L body
                     \<lparr>Errors = [], Message = [], RequestURL = resp_Request_URL resp,
                      StatusCode = resp_StatusCode resp\<rparr> of
                Inl err \<Rightarrow> err
              | Inr h \<Rightarrow> httpErr h))"
    by (simp add: handleHTTPError_def)
next
  assume "StatusCode h \<noteq> 422"
  then show "error_Error L (httpErr h) =
        Inr (''HTTP '' @ Itoa (StatusCode h) @ '': '' @ httpError.Message h @
             '' ('' @ URL_String L (RequestURL h) @ '')'')"
    by (simp add: error_Error_def httpError_Error_def)
next
  assume "StatusCode h = 422 \<and> Errors h = e # es"
  then show "error_Error L (httpErr h) =
        Inr (''Invalid search query '' @
             strconv_Quote (QuoteHigh L) (TrimSpace L (URL_Query_Get L (RequestURL h) ''q'')) @
             [CHR ''.'', CHR 0x0A] @ httpErrorItem.Message e)"
    by (simp add: error_Error_def httpError_Error_def)
next
  show "error_Error L (errorString m) = Inr m"
    by (simp add: error_Error_def)
qed

theorem Search_not_2xx_error_witness:
  "(\<exists>st query'.
      Search example_lib scripted ''github.com'' (example_query [''cli''] 150)
        [ok_json body_page_1,
         (422, ''422 Unprocessable Entity'', ''application/json; charset=utf-8'',
          body_validation_failed)] =
        (Some (httpErr
           \<lparr>Errors = [\<lparr>Code = [], Field = [], Message = ''bad qualifier'', Resource = []\<rparr>],
            Message = ''Validation Failed'',
            RequestURL = URL_of ''https://api.github.com/search/repositories?page=2&per_page=150&q=cli'',
            StatusCode = 422\<rparr>), st, query') \<and>
      length (sent st) = 2 \<and>
      Items (result st) = [''{'' @ js ''id'' @ '':1}'', ''{'' @ js ''id'' @ '':2}'']) \<and>
   error_Error example_lib (httpErr
      \<lparr>Errors = [\<lparr>Code = [], Field = [], Message = ''bad qualifier'', Resource = []\<rparr>],
       Message = ''Validation Failed'',
       RequestURL = URL_of ''https://api.github.com/search/repositories?page=2&per_page=150&q=cli'',
       StatusCode = 422\<rparr>) =
     Inr (''Invalid search query '' @ dquote # ''cli'' @ [dquote] @ [CHR ''.'', CHR 0x0A] @
          ''bad qualifier'') \<and>
   error_Error example_lib (handleHTTPError example_lib
      \<lparr>resp_Status = ''404 Not Found'', resp_StatusCode = 404, resp_ContentType = ''text/html'',
       resp_Body = Inr ''<html>'',
       resp_Request_URL = URL_of ''https://api.github.com/search/repositories?page=1&per_page=30&q=cli''\<rparr>) =
     Inr ''HTTP 404: 404 Not Found (https://api.github.com/search/repositories?page=1&per_page=30&q=cli)''"
proof -
  let ?q = "example_query [''cli''] 150"
  let ?s = "[ok_json body_page_1,
             (422, ''422 Unprocessable Entity'', ''application/json; charset=utf-8'',
              body_validation_failed)]"
  let ?u = "URL_of ''https://api.github.com/search/repositories?page=2&per_page=150&q=cli''"
  let ?resp = "\<lparr>resp_Status = ''422 Unprocessable Entity'', resp_StatusCode = 422,
                resp_ContentType = ''application/json; charset=utf-8'',
                resp_Body = Inr body_validation_failed, resp_Request_URL = ?u\<rparr>"
  let ?h = "\<lparr>Errors = [\<lparr>Code = [], Field = [], Message = ''bad qualifier'', Resource = []\<rparr>],
             Message = ''Validation Failed'', RequestURL = ?u, StatusCode = 422\<rparr>"
  let ?p1 = "\<lparr>IncompleteResults = False,
              Items = [''{'' @ js ''id'' @ '':1}'', ''{'' @ js ''id'' @ '':2}''], TotalCount = 500\<rparr>"
  let ?r404 = "\<lparr>resp_Status = ''404 Not Found'', resp_StatusCode = 404,
                resp_ContentType = ''text/html'', resp_Body = Inr ''<html>'',
                resp_Request_URL = URL_of ''https://api.github.com/search/repositories?page=1&per_page=30&q=cli''\<rparr>"
  have j: "(1::int) \<le> 2 \<and> 2 \<le> pages_of (Limit ?q)"
    by code_simp
  have nre: "\<forall>k. 1 \<le> k \<and> k \<le> 2 \<longrightarrow>
      NewRequestError example_lib (page_url example_lib ''github.com'' ?q k) = None"
    by (simp add: example_lib_def)
  have ok: "map (page_of example_lib)
      (replay scripted ?s (map (page_request example_lib ''github.com'' ?q) [1..2 - 1])) =
      map Some [?p1]"
    by code_simp
  have d: "scripted (replay_state scripted ?s
        (map (page_request example_lib ''github.com'' ?q) [1..2 - 1]))
      (page_request example_lib ''github.com'' ?q 2) = (Inr ?resp, [])"
    by code_simp
  have bad: "\<not> success ?resp"
    by (simp add: success_def)
  have hh: "handleHTTPError example_lib ?resp = httpErr ?h"
    by code_simp
  note t = Search_not_2xx_error [where L = example_lib and Do = scripted and j = 2
      and query = ?q and host = "''github.com''" and s = ?s and ps = "[?p1]"
      and resp = ?resp and s' = "[]", THEN conjunct1]
  from t j nre ok d bad
  have "\<exists>st query'.
      Search example_lib scripted ''github.com'' ?q ?s =
        (Some (handleHTTPError example_lib ?resp), st, query') \<and>
      sent st = map (page_request example_lib ''github.com'' ?q) [1..2] \<and>
      result st = aggregate [?p1]"
    by blast
  then have a: "\<exists>st query'.
      Search example_lib scripted ''github.com'' ?q ?s = (Some (httpErr ?h), st, query') \<and>
      length (sent st) = 2 \<and>
      Items (result st) = [''{'' @ js ''id'' @ '':1}'', ''{'' @ js ''id'' @ '':2}'']"
    by (auto simp add: hh aggregate_def)
  have q: "TrimSpace example_lib (URL_Query_Get example_lib ?u ''q'') = ''cli''"
    by (simp add: example_lib_def example_Query_Get_def example_TrimSpace_def is_space_def)
  have p: "strconv_Quote (QuoteHigh example_lib) ''cli'' = dquote # ''cli'' @ [dquote]"
    by (simp add: strconv_Quote_def is_ascii_def quote_ascii_def dquote_def backslash_def)
  have b: "error_Error example_lib (httpErr ?h) =
     Inr (''Invalid search query '' @ dquote # ''cli'' @ [dquote] @ [CHR ''.'', CHR 0x0A] @
          ''bad qualifier'')"
    using Search_not_2xx_error [where L = example_lib and h = ?h
        and e = "\<lparr>Code = [], Field = [], Message = ''bad qualifier'', Resource = []\<rparr>"
        and es = "[]", THEN conjunct2, THEN conjunct2, THEN conjunct2, THEN conjunct2,
        THEN conjunct1]
    by (simp add: q p)
  have nj: "\<not> MatchString jsonTypeRE (resp_ContentType ?r404)"
    by (simp add: MatchString_def jsonTypeRE_def)
  let ?h404 = "\<lparr>Errors = [], Message = ''404 Not Found'',
                RequestURL = URL_of ''https://api.github.com/search/repositories?page=1&per_page=30&q=cli'',
                StatusCode = 404\<rparr>"
  have c1: "handleHTTPError example_lib ?r404 = httpErr ?h404"
    using Search_not_2xx_error [where L = example_lib and resp = ?r404,
        THEN conjunct2, THEN conjunct1] nj
    by simp
  have c2: "error_Error example_lib (httpErr ?h404) =
     Inr ''HTTP 404: 404 Not Found (https://api.github.com/search/repositories?page=1&per_page=30&q=cli)''"
    using Search_not_2xx_error [where L = example_lib and h = ?h404,
        THEN conjunct2, THEN conjunct2, THEN conjunct2, THEN conjunct1]
    by (simp add: example_lib_def Itoa_def)
  have c: "error_Error example_lib (handleHTTPError example_lib ?r404) =
     Inr ''HTTP 404: 404 Not Found (https://api.github.com/search/repositories?page=1&per_page=30&q=cli)''"
    by (simp only: c1 c2)
  from a b c show ?thesis by blast
qed

text \<open>
  The claim C8 as it is written gives every response that is not 2xx and not 422 the
  message \<^verbatim>\<open>HTTP <status>: ...\<close>, and has the message for a 422 contain the text of \<^verbatim>\<open>q\<close> as it
  was submitted. A 500 response that announces JSON and sends something else is reported
  with the decoder's error; and for the keyword \<^verbatim>\<open>hello world\<close> the submitted \<^verbatim>\<open>q\<close> is
  \<^verbatim>\<open>"hello world"\<close>, which the message of the 422 holds in its escaped form only.
\<close>

theorem Search_error_message_differs:
  "fst (Search example_lib scripted ''github.com'' (example_query [''cli''] 30)
         [(500, ''500 Internal Server Error'', ''application/json; charset=utf-8'', ''<html>'')]) =
     Some syntax_error_html \<and>
   error_Error example_lib syntax_error_html =
     Inr (''invalid character '' @ [CHR 0x27] @ ''<'' @ [CHR 0x27] @
          '' looking for beginning of value'') \<and>
   map_of (queryString (fst (snd
      (Search example_lib scripted ''github.com'' (example_query [''hello world''] 30)
         [(422, ''422 Unprocessable Entity'', ''application/json; charset=utf-8'',
           body_validation_failed)])))) ''q'' =
     Some [dquote # ''hello world'' @ [dquote]] \<and>
   map_option (error_Error example_lib)
     (fst (Search example_lib scripted ''github.com'' (example_query [''hello world''] 30)
         [(422, ''422 Unprocessable Entity'', ''application/json; charset=utf-8'',
           body_validation_failed)])) =
     Some (Inr (''Invalid search query '' @ [dquote, backslash, dquote] @ ''hello world'' @
                [backslash, dquote, dquote] @ [CHR ''.'', CHR 0x0A] @ ''bad qualifier'')) \<and>
   \<not> strings_Contains
       (''Invalid search query '' @ [dquote, backslash, dquote] @ ''hello world'' @
        [backslash, dquote, dquote] @ [CHR ''.'', CHR 0x0A] @ ''bad qualifier'')
       (dquote # ''hello world'' @ [dquote])"
  by code_simp

end
